theory Spec2Isabelle
  imports Main "HOL-Library.Sublist"
begin

section \<open>Python strings and the path functions of the standard library\<close>

text \<open>
  A Python \<open>str\<close> is modelled as a \<open>string\<close> whose characters are the code points
  below 256. \<open>ord\<close> reads the code point of a character.
\<close>

definition ord :: "char \<Rightarrow> nat" where
  "ord c = of_char c"

text \<open>\<open>str.isspace\<close> on one character: TAB..CR, FS..US, space, NEL and NBSP.\<close>

definition isspace :: "char \<Rightarrow> bool" where
  "isspace c =
     (let n = ord c in (9 \<le> n \<and> n \<le> 13) \<or> (28 \<le> n \<and> n \<le> 32) \<or> n = 133 \<or> n = 160)"

text \<open>\<open>str.lower\<close>: the capitals A..Z and the Latin-1 capitals move up by 32.\<close>

definition lower_char :: "char \<Rightarrow> char" where
  "lower_char c =
     (let n = ord c in
      if (65 \<le> n \<and> n \<le> 90) \<or> (192 \<le> n \<and> n \<le> 214) \<or> (216 \<le> n \<and> n \<le> 222)
      then char_of (n + 32) else c)"

definition lower :: "string \<Rightarrow> string" where
  "lower s = map lower_char s"

text \<open>\<open>s.strip(chars)\<close> and \<open>s.strip()\<close>: drop the characters of the class at both ends.\<close>

definition strip_class :: "(char \<Rightarrow> bool) \<Rightarrow> string \<Rightarrow> string" where
  "strip_class P s = rev (dropWhile P (rev (dropWhile P s)))"

definition strip_chars :: "string \<Rightarrow> string \<Rightarrow> string" where
  "strip_chars chars s = strip_class (\<lambda>c. c \<in> set chars) s"

definition strip :: "string \<Rightarrow> string" where
  "strip s = strip_class isspace s"

text \<open>\<open>s.find(sub)\<close>: the index of the first occurrence, \<open>None\<close> for Python's \<open>-1\<close>.\<close>

fun str_find :: "string \<Rightarrow> string \<Rightarrow> nat option" where
  "str_find sub [] = (if sub = [] then Some 0 else None)"
| "str_find sub (c # cs) =
     (if prefix sub (c # cs) then Some 0 else map_option Suc (str_find sub cs))"

text \<open>\<open>sub in s\<close>.\<close>

definition str_in :: "string \<Rightarrow> string \<Rightarrow> bool" where
  "str_in sub s = (str_find sub s \<noteq> None)"

text \<open>\<open>s.partition(sep)\<close>, for a non-empty separator: split at the first occurrence.\<close>

definition str_partition :: "string \<Rightarrow> string \<Rightarrow> string \<times> string \<times> string" where
  "str_partition s sep =
     (case str_find sep s of
        None \<Rightarrow> (s, [], [])
      | Some i \<Rightarrow> (take i s, sep, drop (i + length sep) s))"

text \<open>\<open>s.rfind(c)\<close> for one character: the last index of \<open>c\<close>, or \<open>-1\<close>.\<close>

definition rfind :: "char \<Rightarrow> string \<Rightarrow> int" where
  "rfind c s = int (length s) - 1 - int (length (takeWhile (\<lambda>x. x \<noteq> c) (rev s)))"

text \<open>\<open>posixpath.basename\<close>: \<open>p[p.rfind('/') + 1:]\<close>.\<close>

definition basename :: "string \<Rightarrow> string" where
  "basename p = drop (nat (rfind (CHR ''/'') p + 1)) p"

text \<open>
  \<open>posixpath.splitext\<close> (\<open>genericpath._splitext\<close> with separator \<open>/\<close>): the extension
  starts at the last dot of the last path component, unless that component has only dots
  before it.
\<close>

definition splitext :: "string \<Rightarrow> string \<times> string" where
  "splitext p =
     (let sepIndex = rfind (CHR ''/'') p;
          dotIndex = rfind (CHR ''.'') p
      in if dotIndex > sepIndex \<and>
            list_ex (\<lambda>c. c \<noteq> CHR ''.'')
              (take (nat (dotIndex - (sepIndex + 1))) (drop (nat (sepIndex + 1)) p))
         then (take (nat dotIndex) p, drop (nat dotIndex) p)
         else (p, []))"

text \<open>\<open>posixpath.join\<close> of a directory and a relative name.\<close>

definition path_join :: "string \<Rightarrow> string \<Rightarrow> string" where
  "path_join a b =
     (if b \<noteq> [] \<and> hd b = CHR ''/'' then b
      else if a = [] \<or> last a = CHR ''/'' then a @ b
      else a @ ''/'' @ b)"

section \<open>The filename sanitizer and the destination classifier\<close>

definition VALID_EXTENSIONS :: "string list" where
  "VALID_EXTENSIONS = [''.pt'', ''.safetensors'']"

definition MIN_CHECKPOINT_SIZE :: int where
  "MIN_CHECKPOINT_SIZE = 2 * 1024 ^ 3"

text \<open>The two \<open>ValueError\<close>s of \<open>sanitize_filename\<close>; the first carries the offending name.\<close>

datatype value_error = Path_traversal string | Empty_after_sanitization

text \<open>The class of the regular expression \<open>[<>:"/\\|?*\x00-\x1f\x7f-\x9f]\<close>.\<close>

definition forbidden :: "char \<Rightarrow> bool" where
  "forbidden c =
     (c \<in> set [CHR ''<'', CHR ''>'', CHR '':'', CHR 0x22, CHR ''/'', CHR 0x5C,
                CHR ''|'', CHR ''?'', CHR ''*'']
      \<or> ord c \<le> 31 \<or> (127 \<le> ord c \<and> ord c \<le> 159))"

text \<open>\<open>re.sub(class, "_", name)\<close>.\<close>

definition re_sub_forbidden :: "string \<Rightarrow> string" where
  "re_sub_forbidden name = map (\<lambda>c. if forbidden c then CHR ''_'' else c) name"

definition sanitize_filename :: "string \<Rightarrow> value_error + string" where
  "sanitize_filename name =
     (let name1 = basename name in
      if str_in ''..'' name1 then Inl (Path_traversal name1)
      else
        let name2 = re_sub_forbidden name1;
            name3 = strip_chars ''. '' name2
        in if name3 = [] then Inl Empty_after_sanitization else Inr name3)"

definition destination_folder :: "string \<Rightarrow> int \<Rightarrow> string" where
  "destination_folder filename file_size =
     (let ext = lower (snd (splitext filename)) in
      if ext = ''.pt'' then ''embeddings''
      else if file_size \<ge> MIN_CHECKPOINT_SIZE then ''models''
      else ''loras'')"

section \<open>The world a worker acts on\<close>

text \<open>
  Paths are kept relative to the working directory: \<open>os.path.join(os.getcwd(), n)\<close>
  names the entry \<open>n\<close> of that directory. A file is known by its size, a response body
  by the sizes of its chunks: the code reads nothing else of them.
\<close>

datatype node = File nat | Dir

datatype io_op =
    Op_open string
  | Op_write string nat
  | Op_makedirs string
  | Op_replace string string
  | Op_remove string

text \<open>\<open>requests.Timeout\<close>, and every other \<open>requests.RequestException\<close>.\<close>

datatype request_exception = Timeout | Other_request_exception

datatype body_event = Chunk nat | Stream_error request_exception

text \<open>
  The \<open>content-length\<close> header as \<open>int(response.headers.get("content-length", 0))\<close>
  sees it: missing, a number, or text that \<open>int\<close> rejects.
\<close>

datatype content_length = Absent | Length int | Malformed

record response =
  status_code :: nat
  content_length :: content_length
  body :: "body_event list"

datatype get_outcome = Get_raises request_exception | Get_returns response

record session =
  session_id :: nat
  authorization :: "string option"

datatype status_line =
    SKIP_invalid value_error
  | SKIP_unsupported string string
  | EXISTS string
  | OK string string
  | FAIL_http string nat
  | FAIL_timeout string
  | FAIL_request string
  | FAIL_filesystem string

text \<open>
  \<open>fs\<close> is the directory tree, \<open>io_fault\<close> the operations the operating system refuses
  (permissions, a full disk), \<open>net\<close> the answer of the network to the \<open>k\<close>-th request
  for a URL with a given \<open>Authorization\<close> header, \<open>requests\<close> the requests sent so far,
  \<open>thread_session\<close> the attribute \<open>_thread_local.session\<close> of the running thread,
  \<open>sessions_created\<close> the number of \<open>requests.Session()\<close> objects built so far, and
  \<open>stdout\<close> the status lines printed by the worker.
\<close>

record world =
  fs :: "string \<rightharpoonup> node"
  io_fault :: "io_op \<Rightarrow> bool"
  net :: "string \<Rightarrow> string option \<Rightarrow> nat \<Rightarrow> get_outcome"
  requests :: "(string \<times> string option) list"
  thread_session :: "session option"
  sessions_created :: nat
  stdout :: "status_line list"

definition print :: "status_line \<Rightarrow> world \<Rightarrow> world" where
  "print l w = w\<lparr>stdout := stdout w @ [l]\<rparr>"

definition os_path_exists :: "world \<Rightarrow> string \<Rightarrow> bool" where
  "os_path_exists w p = (fs w p \<noteq> None)"

text \<open>The file operations return \<open>None\<close> where Python raises \<open>OSError\<close>.\<close>

definition open_wb :: "world \<Rightarrow> string \<Rightarrow> world option" where
  "open_wb w p =
     (if io_fault w (Op_open p) \<or> fs w p = Some Dir then None
      else Some (w\<lparr>fs := (fs w)(p \<mapsto> File 0)\<rparr>))"

definition file_write :: "world \<Rightarrow> string \<Rightarrow> nat \<Rightarrow> world option" where
  "file_write w p n =
     (case fs w p of
        Some (File k) \<Rightarrow>
          if io_fault w (Op_write p k) then None
          else Some (w\<lparr>fs := (fs w)(p \<mapsto> File (k + n))\<rparr>)
      | _ \<Rightarrow> None)"

definition os_path_getsize :: "world \<Rightarrow> string \<Rightarrow> nat option" where
  "os_path_getsize w p = (case fs w p of Some (File k) \<Rightarrow> Some k | _ \<Rightarrow> None)"

definition os_makedirs :: "world \<Rightarrow> string \<Rightarrow> world option" where
  "os_makedirs w d =
     (if io_fault w (Op_makedirs d) then None
      else case fs w d of
             Some Dir \<Rightarrow> Some w
           | Some (File k) \<Rightarrow> None
           | None \<Rightarrow> Some (w\<lparr>fs := (fs w)(d \<mapsto> Dir)\<rparr>))"

definition os_replace :: "world \<Rightarrow> string \<Rightarrow> string \<Rightarrow> world option" where
  "os_replace w src dst =
     (if io_fault w (Op_replace src dst) then None
      else case fs w src of
             Some (File k) \<Rightarrow>
               if fs w dst = Some Dir then None
               else Some (w\<lparr>fs := (fs w)(src := None, dst \<mapsto> File k)\<rparr>)
           | _ \<Rightarrow> None)"

definition os_remove :: "world \<Rightarrow> string \<Rightarrow> world option" where
  "os_remove w p =
     (if io_fault w (Op_remove p) then None
      else case fs w p of
             Some (File k) \<Rightarrow> Some (w\<lparr>fs := (fs w)(p := None)\<rparr>)
           | _ \<Rightarrow> None)"

section \<open>The session of a thread\<close>

definition get_session :: "world \<Rightarrow> string \<Rightarrow> session \<times> world" where
  "get_session w token =
     (case thread_session w of
        Some s \<Rightarrow> (s, w)
      | None \<Rightarrow>
          let s = \<lparr>session_id = sessions_created w,
                   authorization = (if token \<noteq> [] then Some (''Bearer '' @ token) else None)\<rparr>
          in (s, w\<lparr>thread_session := Some s, sessions_created := sessions_created w + 1\<rparr>))"

text \<open>The calls \<open>get_session(t)\<close> for the tokens of a list, one after the other.\<close>

fun get_sessions :: "world \<Rightarrow> string list \<Rightarrow> session list \<times> world" where
  "get_sessions w [] = ([], w)"
| "get_sessions w (t # ts) =
     (let (s, w1) = get_session w t; (ss, w2) = get_sessions w1 ts in (s # ss, w2))"

text \<open>\<open>session.get(url, stream=True, timeout=REQUEST_TIMEOUT)\<close>.\<close>

definition session_get :: "world \<Rightarrow> session \<Rightarrow> string \<Rightarrow> get_outcome \<times> world" where
  "session_get w s url =
     (net w url (authorization s) (length (filter (\<lambda>r. fst r = url) (requests w))),
      w\<lparr>requests := requests w @ [(url, authorization s)]\<rparr>)"

section \<open>The download worker\<close>

definition file_already_exists :: "world \<Rightarrow> string \<Rightarrow> bool" where
  "file_already_exists w filename =
     list_ex (\<lambda>folder. os_path_exists w (path_join folder filename))
       [''embeddings'', ''loras'', ''models'']"

datatype exn =
    HTTPError nat
  | Request_exception request_exception
  | OSError
  | ValueError

text \<open>The loop over \<open>response.iter_content\<close> inside \<open>with open(tmp_path, "wb")\<close>.\<close>

fun write_chunks :: "world \<Rightarrow> string \<Rightarrow> body_event list \<Rightarrow> exn option \<times> world" where
  "write_chunks w p [] = (None, w)"
| "write_chunks w p (Stream_error e # rest) = (Some (Request_exception e), w)"
| "write_chunks w p (Chunk n # rest) =
     (case file_write w p n of
        None \<Rightarrow> (Some OSError, w)
      | Some w' \<Rightarrow> write_chunks w' p rest)"

text \<open>
  The body of the \<open>try\<close> statement: \<open>Inl\<close> the exception that leaves it, \<open>Inr\<close> the
  folder when it reaches \<open>tmp_path = None\<close>.
  The progress bar only displays and is left out; a \<open>content-length\<close> that \<open>int\<close>
  rejects raises a \<open>ValueError\<close> that no handler of the worker catches.
\<close>

definition try_body :: "world \<Rightarrow> session \<Rightarrow> string \<Rightarrow> string \<Rightarrow> string \<Rightarrow> (exn + string) \<times> world" where
  "try_body w s url filename tmp_path =
     (case session_get w s url of
        (Get_raises e, w1) \<Rightarrow> (Inl (Request_exception e), w1)
      | (Get_returns r, w1) \<Rightarrow>
          if 400 \<le> status_code r \<and> status_code r < 600 then (Inl (HTTPError (status_code r)), w1)
          else if content_length r = Malformed then (Inl ValueError, w1)
          else
            (case open_wb w1 tmp_path of
               None \<Rightarrow> (Inl OSError, w1)
             | Some w2 \<Rightarrow>
                 (case write_chunks w2 tmp_path (body r) of
                    (Some e, w3) \<Rightarrow> (Inl e, w3)
                  | (None, w3) \<Rightarrow>
                      (case os_path_getsize w3 tmp_path of
                         None \<Rightarrow> (Inl OSError, w3)
                       | Some file_size \<Rightarrow>
                           let folder = destination_folder filename (int file_size) in
                           (case os_makedirs w3 folder of
                              None \<Rightarrow> (Inl OSError, w3)
                            | Some w4 \<Rightarrow>
                                (case os_replace w4 tmp_path (path_join folder filename) of
                                   None \<Rightarrow> (Inl OSError, w4)
                                 | Some w5 \<Rightarrow> (Inr folder, w5)))))))"

text \<open>The \<open>finally\<close> clause while \<open>tmp_path\<close> is still set.\<close>

definition finally_cleanup :: "world \<Rightarrow> string \<Rightarrow> world" where
  "finally_cleanup w tmp_path =
     (if os_path_exists w tmp_path
      then (case os_remove w tmp_path of None \<Rightarrow> w | Some w' \<Rightarrow> w')
      else w)"

text \<open>What a call of the worker gives its caller: a boolean, or an exception nobody caught.\<close>

datatype worker_result = Returned bool | Raised exn

definition download_one :: "world \<Rightarrow> string \<Rightarrow> string \<Rightarrow> string \<Rightarrow> worker_result \<times> world" where
  "download_one w filename0 url token =
     (case sanitize_filename filename0 of
        Inl e \<Rightarrow> (Returned False, print (SKIP_invalid e) w)
      | Inr filename \<Rightarrow>
          let ext = lower (snd (splitext filename)) in
          if ext \<notin> set VALID_EXTENSIONS
          then (Returned False, print (SKIP_unsupported filename ext) w)
          else if file_already_exists w filename
          then (Returned True, print (EXISTS filename) w)
          else
            let (s, w1) = get_session w token;
                tmp_path = filename @ ''.part''
            in (case try_body w1 s url filename tmp_path of
                  (Inr folder, w2) \<Rightarrow> (Returned True, print (OK filename folder) w2)
                | (Inl (HTTPError status), w2) \<Rightarrow>
                    (Returned False, finally_cleanup (print (FAIL_http filename status) w2) tmp_path)
                | (Inl (Request_exception Timeout), w2) \<Rightarrow>
                    (Returned False, finally_cleanup (print (FAIL_timeout filename) w2) tmp_path)
                | (Inl (Request_exception Other_request_exception), w2) \<Rightarrow>
                    (Returned False, finally_cleanup (print (FAIL_request filename) w2) tmp_path)
                | (Inl OSError, w2) \<Rightarrow>
                    (Returned False, finally_cleanup (print (FAIL_filesystem filename) w2) tmp_path)
                | (Inl ValueError, w2) \<Rightarrow>
                    (Raised ValueError, finally_cleanup w2 tmp_path)))"

section \<open>The list of downloads\<close>

type_synonym task = "string \<times> string"

text \<open>The body of the loop of \<open>read_url_file\<close> on one raw line.\<close>

definition read_url_line :: "string \<Rightarrow> task option" where
  "read_url_line raw =
     (let line = strip raw in
      if line = [] \<or> \<not> str_in '' - '' line then None
      else
        let (filename, _, url) = str_partition line '' - '';
            filename = strip filename;
            url = strip url
        in if filename = [] \<or> url = [] then None else Some (filename, url))"

fun read_url_file :: "string list \<Rightarrow> task list" where
  "read_url_file [] = []"
| "read_url_file (raw # rest) =
     (case read_url_line raw of
        None \<Rightarrow> read_url_file rest
      | Some pair \<Rightarrow> pair # read_url_file rest)"

section \<open>The retry loop of main\<close>

text \<open>
  A \<open>ThreadPoolExecutor\<close> starts new threads, whose thread-local storage is empty. The
  pool runs the workers of an attempt concurrently; \<open>executor_map\<close> is one of its
  schedules, the one of a single thread that takes the tasks in the order of the list.
  What \<open>executor.map\<close> fixes for every schedule is kept: one result for each task, in the
  order of the list, and an exception of a worker raised again by \<open>list(...)\<close>. What
  depends on the schedule is this model's choice and no claim below rests on it: the
  order of the status lines within an attempt, the number of sessions built in an
  attempt (one for each thread that runs a task), and which of the later tasks still run
  once a worker has raised (here none).
\<close>

definition new_executor :: "world \<Rightarrow> world" where
  "new_executor w = w\<lparr>thread_session := None\<rparr>"

fun executor_map :: "string \<Rightarrow> world \<Rightarrow> task list \<Rightarrow> (task \<times> bool) list option \<times> world" where
  "executor_map token w [] = (Some [], w)"
| "executor_map token w (p # ps) =
     (case download_one w (fst p) (snd p) token of
        (Raised e, w1) \<Rightarrow> (None, w1)
      | (Returned ok, w1) \<Rightarrow>
          (case executor_map token w1 ps of
             (None, w2) \<Rightarrow> (None, w2)
           | (Some results, w2) \<Rightarrow> (Some ((p, ok) # results), w2)))"

text \<open>\<open>ThreadPoolExecutor(max_workers=n)\<close> raises \<open>ValueError\<close> unless \<open>n > 0\<close>.\<close>

definition run_attempt :: "int \<Rightarrow> string \<Rightarrow> world \<Rightarrow> task list \<Rightarrow> (task \<times> bool) list option \<times> world" where
  "run_attempt max_threads token w pending =
     (if max_threads \<le> 0 then (None, w)
      else executor_map token (new_executor w) pending)"

definition failed_pairs :: "(task \<times> bool) list \<Rightarrow> task list" where
  "failed_pairs results = map fst (filter (\<lambda>(pair, ok). \<not> ok) results)"

datatype run_end = All_succeeded | Exhausted_retries "task list" | Uncaught_exception

function main_loop :: "int \<Rightarrow> int \<Rightarrow> string \<Rightarrow> int \<Rightarrow> world \<Rightarrow> task list \<Rightarrow> run_end \<times> world" where
  "main_loop max_threads retries token attempt w pending =
     (if attempt > retries then (Exhausted_retries pending, w)
      else
        (case run_attempt max_threads token w pending of
           (None, w1) \<Rightarrow> (Uncaught_exception, w1)
         | (Some results, w1) \<Rightarrow>
             if failed_pairs results = [] then (All_succeeded, w1)
             else main_loop max_threads retries token (attempt + 1) w1 (failed_pairs results)))"
  by pat_completeness auto
termination
  by (relation "measure (\<lambda>(max_threads, retries, token, attempt, w, pending). nat (retries + 1 - attempt))") auto

section \<open>The program\<close>

text \<open>
  What the process is started with: the lines of the file named by \<open>--url_file\<close> (\<open>None\<close>
  when it cannot be read), the two numeric options, the environment variable
  \<open>CIVITAI_API_TOKEN\<close> (empty when unset) and the answer to the prompt (\<open>None\<close> for an
  interrupt or the end of the input).
\<close>

record invocation =
  url_file :: "string list option"
  max_threads :: int
  retries :: int
  env_token :: string
  prompt :: "string option"

datatype process_end = Ends_normally | Sys_exit int | Traceback

fun exit_code :: "process_end \<Rightarrow> int" where
  "exit_code Ends_normally = 0"
| "exit_code (Sys_exit n) = n"
| "exit_code Traceback = 1"

text \<open>\<open>get_token\<close>: \<open>None\<close> where it calls \<open>sys.exit(1)\<close>.\<close>

definition get_token :: "invocation \<Rightarrow> string option" where
  "get_token args =
     (if env_token args \<noteq> [] then Some (env_token args)
      else case prompt args of None \<Rightarrow> None | Some t \<Rightarrow> Some (strip t))"

text \<open>
  \<open>main\<close> gives the way the process ends and the filenames of the final list of
  failures, with the world it leaves.
  Its other messages are left out. An uncaught exception ends
  the process with a traceback and exit code 1.
\<close>

definition main :: "invocation \<Rightarrow> world \<Rightarrow> (process_end \<times> string list) \<times> world" where
  "main args w =
     (case get_token args of
        None \<Rightarrow> ((Sys_exit 1, []), w)
      | Some token \<Rightarrow>
          (case url_file args of
             None \<Rightarrow> ((Traceback, []), w)
           | Some lines \<Rightarrow>
               let pairs = read_url_file lines in
               if pairs = [] then ((Sys_exit 1, []), w)
               else
                 (case main_loop (max_threads args) (retries args) token 1 w pairs of
                    (All_succeeded, w1) \<Rightarrow> ((Ends_normally, []), w1)
                  | (Exhausted_retries pending, w1) \<Rightarrow> ((Sys_exit 1, map fst pending), w1)
                  | (Uncaught_exception, w1) \<Rightarrow> ((Traceback, []), w1))))"

declare main_loop.simps [simp del]

section \<open>Concrete worlds\<close>

text \<open>An empty directory, no faults, nothing sent yet, over a given network.\<close>

definition empty_world :: "(string \<Rightarrow> string option \<Rightarrow> nat \<Rightarrow> get_outcome) \<Rightarrow> world" where
  "empty_world n =
     \<lparr>fs = Map.empty, io_fault = (\<lambda>_. False), net = n, requests = [],
      thread_session = None, sessions_created = 0, stdout = []\<rparr>"

definition ok_response :: response where
  "ok_response = \<lparr>status_code = 200, content_length = Length 10, body = [Chunk 6, Chunk 4]\<rparr>"

text \<open>
  The network of the retry scenario: \<open>a\<close> is served at once, \<open>b\<close> times out twice and is
  served at the third request, \<open>c\<close> is never found.
\<close>

definition scenario_net :: "string \<Rightarrow> string option \<Rightarrow> nat \<Rightarrow> get_outcome" where
  "scenario_net url auth k =
     (if url = ''http://h/a'' then Get_returns ok_response
      else if url = ''http://h/b'' \<and> 2 \<le> k then Get_returns ok_response
      else if url = ''http://h/b'' then Get_raises Timeout
      else Get_returns \<lparr>status_code = 404, content_length = Absent, body = []\<rparr>)"

definition scenario_tasks :: "task list" where
  "scenario_tasks =
     [(''a.safetensors'', ''http://h/a''), (''b.safetensors'', ''http://h/b''),
      (''c.pt'', ''http://h/c'')]"

definition scenario_args :: invocation where
  "scenario_args =
     \<lparr>url_file = Some [''a.safetensors - http://h/a'', [], ''b.safetensors - http://h/b'',
                        ''c.pt - http://h/c''],
      max_threads = 5, retries = 3, env_token = ''tok'', prompt = None\<rparr>"

text \<open>The worlds of the scenario after its first and after its second attempt.\<close>

definition scenario_world1 :: world where
  "scenario_world1 = snd (run_attempt 5 ''tok'' (empty_world scenario_net) scenario_tasks)"

definition scenario_world2 :: world where
  "scenario_world2 =
     snd (run_attempt 5 ''tok'' scenario_world1
            [(''b.safetensors'', ''http://h/b''), (''c.pt'', ''http://h/c'')])"

text \<open>A network whose connection breaks after the first chunk of the body.\<close>

definition broken_response :: response where
  "broken_response =
     \<lparr>status_code = 200, content_length = Length 10,
      body = [Chunk 6, Stream_error Other_request_exception, Chunk 4]\<rparr>"

definition broken_net :: "string \<Rightarrow> string option \<Rightarrow> nat \<Rightarrow> get_outcome" where
  "broken_net url auth k = Get_returns broken_response"

text \<open>A directory in which \<open>models/x.PT\<close> is already present.\<close>

definition stocked_world :: world where
  "stocked_world = (empty_world scenario_net)\<lparr>fs := [''models/x.PT'' \<mapsto> File 3]\<rparr>"

text \<open>An input list with a blank line, a comment and a line without the separator.\<close>

definition no_entries_args :: invocation where
  "no_entries_args =
     \<lparr>url_file = Some [[], ''# my models'', ''model.pt http://h/a''],
      max_threads = 5, retries = 3, env_token = ''tok'', prompt = None\<rparr>"

text \<open>An input list whose only entry has an extension that is not accepted.\<close>

definition json_args :: invocation where
  "json_args =
     \<lparr>url_file = Some [''notes.json - http://h/a''],
      max_threads = 5, retries = 3, env_token = ''tok'', prompt = None\<rparr>"

section \<open>Facts about the string functions\<close>

lemma str_find_None_iff: "str_find sub s = None \<longleftrightarrow> \<not> sublist sub s"
proof (cases sub)
  case Nil
  then show ?thesis by (cases s) auto
next
  case (Cons x xs)
  show ?thesis unfolding Cons
    by (induction s) (auto simp: sublist_code)
qed

lemma str_in_sublist: "str_in sub s \<longleftrightarrow> sublist sub s"
  by (simp add: str_in_def str_find_None_iff)

lemma basename_takeWhile: "basename p = rev (takeWhile (\<lambda>c. c \<noteq> CHR ''/'') (rev p))"
proof -
  define k where "k = length (takeWhile (\<lambda>c. c \<noteq> CHR ''/'') (rev p))"
  have k: "k \<le> length p"
    unfolding k_def using length_takeWhile_le [of "\<lambda>c. c \<noteq> CHR ''/''" "rev p"] by simp
  have "nat (rfind (CHR ''/'') p + 1) = length p - k"
    using k by (simp add: rfind_def k_def)
  then have "basename p = drop (length p - k) p"
    by (simp add: basename_def)
  moreover have "takeWhile (\<lambda>c. c \<noteq> CHR ''/'') (rev p) = take k (rev p)"
    unfolding k_def by (rule takeWhile_eq_take)
  moreover have "rev (take k (rev p)) = drop (length p - k) p"
    using rev_take [of k "rev p"] by simp
  ultimately show ?thesis by simp
qed

lemma basename_no_slash: "CHR ''/'' \<notin> set (basename p)"
  using set_takeWhileD [of "CHR ''/''" "\<lambda>c. c \<noteq> CHR ''/''" "rev p"]
  by (auto simp: basename_takeWhile)

lemma basename_append:
  assumes "d = [] \<or> last d = CHR ''/''" and b: "CHR ''/'' \<notin> set b"
  shows "basename (d @ b) = b"
proof -
  have all: "\<And>x. x \<in> set (rev b) \<Longrightarrow> x \<noteq> CHR ''/''" using b by auto
  show ?thesis
  proof (cases "d = []")
    case True
    have "takeWhile (\<lambda>c. c \<noteq> CHR ''/'') (rev b) = rev b"
      using all by (simp add: takeWhile_eq_all_conv)
    with True show ?thesis by (simp only: basename_takeWhile append_Nil rev_rev_ident)
  next
    case False
    with assms(1) obtain d' where d: "d = d' @ ''/''"
      by (metis append_butlast_last_id)
    have "takeWhile (\<lambda>c. c \<noteq> CHR ''/'') (rev b @ CHR ''/'' # rev d')
            = rev b @ takeWhile (\<lambda>c. c \<noteq> CHR ''/'') (CHR ''/'' # rev d')"
      by (rule takeWhile_append2) (rule all)
    then have "takeWhile (\<lambda>c. c \<noteq> CHR ''/'') (rev b @ CHR ''/'' # rev d') = rev b"
      by simp
    then show ?thesis by (simp only: d basename_takeWhile rev_append rev.simps append_Nil append_Cons append_assoc rev_rev_ident)
  qed
qed

lemma basename_id: "CHR ''/'' \<notin> set p \<Longrightarrow> basename p = p"
  using basename_append [of "[]" p] by simp

lemma strip_class_prefix: "prefix (strip_class P s) (dropWhile P s)"
  unfolding strip_class_def
  by (metis suffix_dropWhile suffix_to_prefix rev_rev_ident)

lemma strip_class_sublist: "sublist (strip_class P s) s"
proof -
  have "suffix (dropWhile P s) s" by (rule suffix_dropWhile)
  with strip_class_prefix [of P s] show ?thesis
    by (meson prefix_imp_sublist suffix_imp_sublist sublist_order.order.trans)
qed

lemma set_strip_class: "set (strip_class P s) \<subseteq> set s"
  using strip_class_sublist [of P s] by (rule set_mono_sublist)

lemma strip_class_ends:
  assumes "strip_class P s \<noteq> []"
  shows "\<not> P (hd (strip_class P s))" and "\<not> P (last (strip_class P s))"
proof -
  define u where "u = dropWhile P s"
  define v where "v = strip_class P s"
  have v: "v = rev (dropWhile P (rev u))" by (simp add: v_def u_def strip_class_def)
  have ne: "v \<noteq> []" using assms by (simp add: v_def)
  have pre: "prefix v u" using strip_class_prefix [of P s] by (simp add: v_def u_def)
  with ne have "u \<noteq> []" by auto
  then have "\<not> P (hd u)" unfolding u_def by (rule hd_dropWhile)
  moreover have "hd v = hd u" using pre ne by (auto simp: prefix_def)
  ultimately show "\<not> P (hd (strip_class P s))" by (simp add: v_def)
  have "dropWhile P (rev u) \<noteq> []" using ne v by auto
  then have "\<not> P (hd (dropWhile P (rev u)))" by (rule hd_dropWhile)
  moreover have "last v = hd (dropWhile P (rev u))"
    using ne v by (simp add: last_rev)
  ultimately show "\<not> P (last (strip_class P s))" by (simp add: v_def)
qed

lemma dropWhile_hd: "xs \<noteq> [] \<Longrightarrow> \<not> P (hd xs) \<Longrightarrow> dropWhile P xs = xs"
  by (cases xs) auto

lemma strip_class_fixed:
  assumes "s = [] \<or> (\<not> P (hd s) \<and> \<not> P (last s))"
  shows "strip_class P s = s"
proof (cases "s = []")
  case True then show ?thesis by (simp add: strip_class_def)
next
  case False
  with assms have h: "\<not> P (hd s)" and l: "\<not> P (last s)" by auto
  have 1: "dropWhile P s = s" using False h by (rule dropWhile_hd)
  have "rev s \<noteq> []" using False by simp
  moreover have "\<not> P (hd (rev s))" using False l by (simp add: hd_rev)
  ultimately have 2: "dropWhile P (rev s) = rev s" by (rule dropWhile_hd)
  show ?thesis by (simp add: strip_class_def 1 2)
qed

lemma strip_class_idem: "strip_class P (strip_class P s) = strip_class P s"
  using strip_class_ends [of P s] by (intro strip_class_fixed) auto

section \<open>Facts about the sanitizer\<close>

lemma underscore_allowed: "\<not> forbidden (CHR ''_'')"
  by (simp add: forbidden_def ord_def)

lemma dot_allowed: "\<not> forbidden (CHR ''.'')"
  by (simp add: forbidden_def ord_def)

lemma slash_forbidden: "forbidden (CHR ''/'')"
  by (simp add: forbidden_def)

lemma re_sub_allowed: "c \<in> set (re_sub_forbidden s) \<Longrightarrow> \<not> forbidden c"
  by (auto simp: re_sub_forbidden_def underscore_allowed)

lemma re_sub_fixed: "(\<And>c. c \<in> set s \<Longrightarrow> \<not> forbidden c) \<Longrightarrow> re_sub_forbidden s = s"
  by (simp add: re_sub_forbidden_def map_idI)

lemma re_sub_dot: "(if forbidden c then CHR ''_'' else c) = CHR ''.'' \<longleftrightarrow> c = CHR ''.''"
  by (auto simp: dot_allowed)

lemma map_dotdot:
  assumes "\<And>c. g c = CHR ''.'' \<Longrightarrow> c = CHR ''.''"
  shows "sublist ''..'' (map g s) \<Longrightarrow> sublist ''..'' s"
proof (induction s)
  case Nil
  then show ?case by simp
next
  case (Cons c cs)
  show ?case
  proof (cases "prefix ''..'' (map g (c # cs))")
    case True
    then obtain c2 cs' where cs: "cs = c2 # cs'" and "g c = CHR ''.''" and "g c2 = CHR ''.''"
      by (cases cs) auto
    then have "c = CHR ''.''" and "c2 = CHR ''.''" using assms by blast+
    then have "prefix ''..'' (c # cs)" by (simp add: cs)
    then show ?thesis by (rule prefix_imp_sublist)
  next
    case False
    with Cons.prems have "sublist ''..'' (map g cs)" by (auto simp: sublist_code)
    then have "sublist ''..'' cs" by (rule Cons.IH)
    then show ?thesis by (simp add: sublist_code)
  qed
qed

lemma re_sub_dotdot: "sublist ''..'' (re_sub_forbidden s) \<Longrightarrow> sublist ''..'' s"
  unfolding re_sub_forbidden_def
  by (rule map_dotdot [where g = "\<lambda>c. if forbidden c then CHR ''_'' else c"])
     (simp_all only: re_sub_dot)

lemma sanitize_filename_Inr:
  "sanitize_filename x = Inr y \<longleftrightarrow>
     \<not> str_in ''..'' (basename x) \<and> y = strip_chars ''. '' (re_sub_forbidden (basename x)) \<and> y \<noteq> []"
  by (auto simp: sanitize_filename_def Let_def)

lemma sanitized_allowed:
  assumes "sanitize_filename x = Inr y" and "c \<in> set y"
  shows "\<not> forbidden c"
proof -
  from assms have "c \<in> set (re_sub_forbidden (basename x))"
    using set_strip_class by (auto simp: sanitize_filename_Inr strip_chars_def)
  then show ?thesis by (rule re_sub_allowed)
qed

lemma sanitized_no_slash: "sanitize_filename x = Inr y \<Longrightarrow> CHR ''/'' \<notin> set y"
  using sanitized_allowed slash_forbidden by blast

lemma sanitized_no_dotdot:
  assumes "sanitize_filename x = Inr y"
  shows "\<not> str_in ''..'' y"
proof
  assume "str_in ''..'' y"
  then have "sublist ''..'' y" by (simp add: str_in_sublist)
  moreover have "sublist y (re_sub_forbidden (basename x))"
    using assms strip_class_sublist by (simp add: sanitize_filename_Inr strip_chars_def)
  ultimately have "sublist ''..'' (re_sub_forbidden (basename x))"
    by (rule sublist_order.order.trans)
  then have "sublist ''..'' (basename x)" by (rule re_sub_dotdot)
  with assms show False by (simp add: sanitize_filename_Inr str_in_sublist)
qed


section \<open>Facts about the session and the worker\<close>

lemma get_session_again: "get_session w t = (s, w1) \<Longrightarrow> get_session w1 t' = (s, w1)"
  by (auto simp: get_session_def Let_def split: option.splits)

lemma get_sessions_existing:
  "thread_session w = Some s \<Longrightarrow> get_sessions w ts = (replicate (length ts) s, w)"
  by (induction ts) (simp_all add: get_session_def)

lemma get_session_slot: "thread_session (snd (get_session w t)) = Some (fst (get_session w t))"
  by (simp add: get_session_def Let_def split: option.splits)


lemma path_join_plain:
  "CHR ''/'' \<notin> set name \<Longrightarrow> folder \<in> {''embeddings'', ''loras'', ''models''} \<Longrightarrow>
   path_join folder name = folder @ ''/'' @ name"
  by (cases name) (auto simp: path_join_def)

lemma file_already_exists_iff:
  "file_already_exists w name \<longleftrightarrow>
     (\<exists>folder \<in> {''embeddings'', ''loras'', ''models''}. fs w (path_join folder name) \<noteq> None)"
  by (simp add: file_already_exists_def os_path_exists_def)

lemma file_write_inv:
  assumes "file_write w p n = Some w'"
  shows "io_fault w' = io_fault w" and "\<And>q. q \<noteq> p \<Longrightarrow> fs w' q = fs w q"
    and "\<exists>k. fs w' p = Some (File k)"
  using assms by (auto simp: file_write_def split: option.splits node.splits if_splits)

lemma write_chunks_inv:
  "write_chunks w p evs = (r, w') \<Longrightarrow> fs w p = Some (File k) \<Longrightarrow>
   io_fault w' = io_fault w \<and> (\<forall>q. q \<noteq> p \<longrightarrow> fs w' q = fs w q) \<and> (\<exists>k'. fs w' p = Some (File k'))"
proof (induction w p evs arbitrary: k rule: write_chunks.induct)
  case (1 w p)
  then show ?case by simp
next
  case (2 w p e rest)
  then show ?case by simp
next
  case (3 w p n rest)
  show ?case
  proof (cases "file_write w p n")
    case None
    with "3.prems" show ?thesis by simp
  next
    case (Some w1)
    from file_write_inv [OF Some] obtain k1 where
      f: "io_fault w1 = io_fault w" and o: "\<And>q. q \<noteq> p \<Longrightarrow> fs w1 q = fs w q"
      and t: "fs w1 p = Some (File k1)" by blast
    from "3.prems"(1) Some have "write_chunks w1 p rest = (r, w')" by simp
    with Some t have "io_fault w' = io_fault w1 \<and> (\<forall>q. q \<noteq> p \<longrightarrow> fs w' q = fs w1 q) \<and>
        (\<exists>k'. fs w' p = Some (File k'))"
      by (intro "3.IH")
    with f o show ?thesis by simp
  qed
qed

lemma write_chunks_exn:
  "write_chunks w p evs = (Some e, w') \<Longrightarrow> e = OSError \<or> (\<exists>x. e = Request_exception x)"
  by (induction w p evs rule: write_chunks.induct) (auto split: option.splits)

lemma finally_cleanup_inv:
  "io_fault (finally_cleanup w p) = io_fault w"
  "q \<noteq> p \<Longrightarrow> fs (finally_cleanup w p) q = fs w q"
  "fs w p = Some (File k) \<Longrightarrow> \<not> io_fault w (Op_remove p) \<Longrightarrow> fs (finally_cleanup w p) p = None"
  by (auto simp: finally_cleanup_def os_remove_def os_path_exists_def split: option.splits node.splits)

lemma handler_returns_False:
  assumes "try_body w1 s url name tmp = (Inl e, w4)"
    and "e = OSError \<or> (\<exists>x. e = Request_exception x)"
    and "sanitize_filename filename0 = Inr name"
    and "lower (snd (splitext name)) \<in> set VALID_EXTENSIONS"
    and "\<not> file_already_exists w name"
    and "get_session w token = (s, w1)"
    and "tmp = name @ ''.part''"
  shows "\<exists>line. download_one w filename0 url token = (Returned False, finally_cleanup (print line w4) tmp)"
proof -
  from assms(2) consider "e = OSError" | "e = Request_exception Timeout"
    | "e = Request_exception Other_request_exception"
    by (metis request_exception.exhaust)
  then show ?thesis
    using assms(1,3-7) by cases (auto simp: download_one_def)
qed

lemma print_inv: "fs (print l w) = fs w" "io_fault (print l w) = io_fault w"
  by (simp_all add: print_def)

lemma get_session_inv:
  "get_session w t = (s, w1) \<Longrightarrow> fs w1 = fs w \<and> io_fault w1 = io_fault w"
  by (auto simp: get_session_def Let_def split: option.splits)

lemma session_get_inv:
  "session_get w s url = (r, w1) \<Longrightarrow> fs w1 = fs w \<and> io_fault w1 = io_fault w"
  by (auto simp: session_get_def)

lemma open_wb_inv:
  "open_wb w p = Some w1 \<Longrightarrow>
   fs w1 p = Some (File 0) \<and> (\<forall>q. q \<noteq> p \<longrightarrow> fs w1 q = fs w q) \<and> io_fault w1 = io_fault w"
  by (auto simp: open_wb_def split: if_splits)

section \<open>Facts about the retry loop\<close>

lemma unsupported_returns_False:
  assumes "sanitize_filename filename0 = Inr name"
    and "lower (snd (splitext name)) \<notin> set VALID_EXTENSIONS"
  shows "download_one w filename0 url token =
           (Returned False, w\<lparr>stdout := stdout w @ [SKIP_unsupported name (lower (snd (splitext name)))]\<rparr>)"
  using assms by (simp add: download_one_def print_def)

lemma executor_map_fst:
  "executor_map token w pending = (Some results, w1) \<Longrightarrow> map fst results = pending"
proof (induction pending arbitrary: w results)
  case Nil
  then show ?case by simp
next
  case (Cons p ps)
  then show ?case
    by (auto split: prod.splits worker_result.splits option.splits)
qed

lemma executor_map_False:
  assumes "\<And>w. fst (download_one w (fst p) (snd p) token) = Returned False"
  shows "executor_map token w pending = (Some results, w1) \<Longrightarrow> p \<in> set pending \<Longrightarrow>
         (p, False) \<in> set results"
proof (induction pending arbitrary: w results)
  case Nil
  then show ?case by simp
next
  case (Cons q qs)
  obtain r wq where d: "download_one w (fst q) (snd q) token = (r, wq)" by (cases "download_one w (fst q) (snd q) token")
  with Cons.prems(1) obtain ok where r: "r = Returned ok" by (cases r) auto
  with d Cons.prems(1) obtain rs where m: "executor_map token wq qs = (Some rs, w1)" and res: "results = (q, ok) # rs"
    by (auto split: prod.splits option.splits)
  show ?case
  proof (cases "p = q")
    case True
    with assms [of w] d r have "ok = False" by simp
    with True res show ?thesis by simp
  next
    case False
    with Cons.prems(2) have "p \<in> set qs" by simp
    with m have "(p, False) \<in> set rs" by (rule Cons.IH)
    with res show ?thesis by simp
  qed
qed

lemma failed_pairs_mem: "(p, False) \<in> set results \<Longrightarrow> p \<in> set (failed_pairs results)"
  by (force simp: failed_pairs_def)

lemma failed_pairs_subseq: "subseq (failed_pairs results) (map fst results)"
  unfolding failed_pairs_def by (intro subseq_map subseq_filter_left)

lemma run_attempt_Some:
  "run_attempt mt token w pending = (Some results, w1) \<Longrightarrow>
   0 < mt \<and> executor_map token (new_executor w) pending = (Some results, w1)"
  by (auto simp: run_attempt_def split: if_splits)

lemma main_loop_exhausted:
  "attempt > rt \<Longrightarrow>
   main_loop mt rt token attempt w pending = (Exhausted_retries pending, w)"
  by (subst main_loop.simps) simp

lemma main_loop_step:
  "attempt \<le> rt \<Longrightarrow> run_attempt mt token w pending = (Some results, w1) \<Longrightarrow>
   main_loop mt rt token attempt w pending =
     (if failed_pairs results = [] then (All_succeeded, w1)
      else main_loop mt rt token (attempt + 1) w1 (failed_pairs results))"
  by (subst main_loop.simps) simp

lemma main_loop_crash:
  "attempt \<le> rt \<Longrightarrow> run_attempt mt token w pending = (None, w1) \<Longrightarrow>
   main_loop mt rt token attempt w pending = (Uncaught_exception, w1)"
  by (subst main_loop.simps) simp

lemma main_loop_keeps_False:
  "(\<And>w. fst (download_one w (fst p) (snd p) token) = Returned False) \<Longrightarrow> p \<in> set pending \<Longrightarrow>
         fst (main_loop mt rt token attempt w pending) \<noteq> All_succeeded \<and>
         (\<forall>left. fst (main_loop mt rt token attempt w pending) = Exhausted_retries left
            \<longrightarrow> p \<in> set left)"
proof (induction mt rt token attempt w pending rule: main_loop.induct)
  case (1 mt rt token attempt w pending)
  note always = "1.prems"(1) and mem0 = "1.prems"(2)
  show ?case
  proof (cases "attempt > rt")
    case True
    with mem0 show ?thesis by (simp add: main_loop_exhausted)
  next
    case False
    obtain r w1 where ra: "run_attempt mt token w pending = (r, w1)"
      by (cases "run_attempt mt token w pending")
    show ?thesis
    proof (cases r)
      case None
      with False ra show ?thesis by (simp add: main_loop_crash)
    next
      case (Some results)
      with ra have ra': "run_attempt mt token w pending = (Some results, w1)" by simp
      then have ex: "executor_map token (new_executor w) pending = (Some results, w1)"
        by (simp add: run_attempt_Some)
      have "(p, False) \<in> set results"
        by (rule executor_map_False [where token = token and p = p]) (rule always, rule ex, rule mem0)
      then have mem: "p \<in> set (failed_pairs results)" by (rule failed_pairs_mem)
      then have ne: "failed_pairs results \<noteq> []" by auto
      have step: "main_loop mt rt token attempt w pending =
                  main_loop mt rt token (attempt + 1) w1 (failed_pairs results)"
        using False ra' ne by (simp add: main_loop_step)
      have "fst (main_loop mt rt token (attempt + 1) w1 (failed_pairs results)) \<noteq> All_succeeded \<and>
         (\<forall>left. fst (main_loop mt rt token (attempt + 1) w1 (failed_pairs results)) = Exhausted_retries left
            \<longrightarrow> p \<in> set left)"
        using False ra' ne mem always by (intro "1.IH") auto
      then show ?thesis unfolding step .
    qed
  qed
qed

lemma main_loop_subseq:
  "fst (main_loop mt rt token attempt w pending) = Exhausted_retries left \<Longrightarrow>
   subseq left pending"
proof (induction mt rt token attempt w pending rule: main_loop.induct)
  case (1 mt rt token attempt w pending)
  show ?case
  proof (cases "attempt > rt")
    case True
    with "1.prems" show ?thesis by (simp add: main_loop_exhausted)
  next
    case False
    obtain r w1 where ra: "run_attempt mt token w pending = (r, w1)"
      by (cases "run_attempt mt token w pending")
    show ?thesis
    proof (cases r)
      case None
      with False ra "1.prems" show ?thesis by (simp add: main_loop_crash)
    next
      case (Some results)
      with ra have ra': "run_attempt mt token w pending = (Some results, w1)" by simp
      then have "map fst results = pending"
        using executor_map_fst run_attempt_Some by blast
      then have sub: "subseq (failed_pairs results) pending"
        using failed_pairs_subseq [of results] by simp
      show ?thesis
      proof (cases "failed_pairs results = []")
        case True
        with False ra' "1.prems" show ?thesis by (simp add: main_loop_step)
      next
        case ne: False
        with False ra' "1.prems"
        have "fst (main_loop mt rt token (attempt + 1) w1 (failed_pairs results)) = Exhausted_retries left"
          by (simp add: main_loop_step)
        with False ra' ne have "subseq left (failed_pairs results)"
          by (intro "1.IH") auto
        with sub show ?thesis by (meson subseq_order.trans)
      qed
    qed
  qed
qed

section \<open>Facts about the input list\<close>

lemma strip_class_Nil_iff: "strip_class P s = [] \<longleftrightarrow> (\<forall>x\<in>set s. P x)"
proof
  assume "\<forall>x\<in>set s. P x"
  then have d: "dropWhile P s = []" by (rule dropWhile_eq_Nil_conv [THEN iffD2])
  show "strip_class P s = []" unfolding strip_class_def d by simp
next
  assume e: "strip_class P s = []"
  define u where "u = dropWhile P s"
  from e have "dropWhile P (rev u) = []" by (simp add: strip_class_def u_def)
  then have "\<forall>x\<in>set (rev u). P x" by (rule dropWhile_eq_Nil_conv [THEN iffD1])
  then have all: "\<forall>x\<in>set u. P x" by simp
  have "u = []"
  proof (rule ccontr)
    assume ne: "u \<noteq> []"
    then have "\<not> P (hd u)" unfolding u_def by (rule hd_dropWhile)
    moreover have "hd u \<in> set u" using ne by simp
    ultimately show False using all by blast
  qed
  then have "dropWhile P s = []" by (simp add: u_def)
  then show "\<forall>x\<in>set s. P x" by (rule dropWhile_eq_Nil_conv [THEN iffD1])
qed

lemma prefix_butlast_ext: "sep \<noteq> [] \<Longrightarrow> prefix (pre @ butlast sep) (pre @ sep @ post)"
proof -
  assume "sep \<noteq> []"
  then have "sep = butlast sep @ [last sep]" by simp
  then have "pre @ sep @ post = (pre @ butlast sep) @ ([last sep] @ post)"
    by (metis append_assoc)
  then show ?thesis by (metis prefixI)
qed

lemma str_find_first:
  assumes sep: "sep \<noteq> []"
  shows "\<not> sublist sep (pre @ butlast sep) \<Longrightarrow> str_find sep (pre @ sep @ post) = Some (length pre)"
proof (induction pre)
  case Nil
  from sep obtain c cs where e: "sep @ post = c # cs" by (cases sep) auto
  have "prefix sep (c # cs)" unfolding e [symmetric] by simp
  then have "str_find sep (c # cs) = Some 0" by simp
  then show ?case by (simp add: e)
next
  case (Cons c pre)
  have np: "\<not> prefix sep (c # pre @ sep @ post)"
  proof
    assume p: "prefix sep (c # pre @ sep @ post)"
    have "prefix ((c # pre) @ butlast sep) ((c # pre) @ sep @ post)"
      using sep by (rule prefix_butlast_ext)
    moreover have "length sep \<le> length ((c # pre) @ butlast sep)" by simp
    ultimately have "prefix sep ((c # pre) @ butlast sep)"
      using p by (metis append_Cons prefix_length_prefix)
    then have "sublist sep ((c # pre) @ butlast sep)" by (rule prefix_imp_sublist)
    with Cons.prems show False by simp
  qed
  have "\<not> sublist sep (pre @ butlast sep)"
    using Cons.prems by (auto simp: sublist_Cons_right)
  then have "str_find sep (pre @ sep @ post) = Some (length pre)" by (rule Cons.IH)
  with np show ?case by simp
qed

lemma first_occurrence_exists:
  assumes sep: "sep \<noteq> []"
  shows "sublist sep s \<Longrightarrow> \<exists>pre post. s = pre @ sep @ post \<and> \<not> sublist sep (pre @ butlast sep)"
proof (induction s)
  case Nil
  with sep show ?case by simp
next
  case (Cons c cs)
  show ?case
  proof (cases "prefix sep (c # cs)")
    case True
    then obtain post where "c # cs = [] @ sep @ post" by (auto simp: prefix_def)
    moreover have "\<not> sublist sep ([] @ butlast sep)"
    proof
      assume "sublist sep ([] @ butlast sep)"
      then have "length sep \<le> length (butlast sep)" using sublist_length_le by fastforce
      moreover have "length (butlast sep) < length sep"
        using sep by (cases sep rule: rev_cases) simp_all
      ultimately show False by linarith
    qed
    ultimately show ?thesis by blast
  next
    case False
    with Cons.prems have "sublist sep cs" by (simp add: sublist_Cons_right)
    then obtain pre post where cs: "cs = pre @ sep @ post"
      and first: "\<not> sublist sep (pre @ butlast sep)"
      using Cons.IH by blast
    have "\<not> prefix sep ((c # pre) @ butlast sep)"
    proof
      assume "prefix sep ((c # pre) @ butlast sep)"
      moreover have "prefix ((c # pre) @ butlast sep) ((c # pre) @ sep @ post)"
        using sep by (rule prefix_butlast_ext)
      ultimately have "prefix sep ((c # pre) @ sep @ post)" by (rule prefix_order.trans)
      with False cs show False by simp
    qed
    with first have "\<not> sublist sep ((c # pre) @ butlast sep)"
      by (simp add: sublist_Cons_right)
    moreover have "c # cs = (c # pre) @ sep @ post" by (simp add: cs)
    ultimately show ?thesis by blast
  qed
qed

lemma space_isspace: "isspace (CHR '' '')"
  by (simp add: isspace_def ord_def)

lemma read_url_line_split:
  assumes line: "strip raw = pre @ '' - '' @ post"
    and first: "\<not> str_in '' - '' (pre @ '' -'')"
  shows "read_url_line raw = Some (strip pre, strip post)"
    and "strip pre \<noteq> []" and "strip post \<noteq> []"
proof -
  have ne: "strip_class isspace raw \<noteq> []" using line by (simp add: strip_def)
  have h: "\<not> isspace (hd (strip raw))" and l: "\<not> isspace (last (strip raw))"
    using strip_class_ends [OF ne] by (simp_all add: strip_def)
  have pre: "pre \<noteq> []"
  proof
    assume "pre = []"
    with line have "hd (strip raw) = CHR '' ''" by simp
    with h space_isspace show False by simp
  qed
  have post: "post \<noteq> []"
  proof
    assume "post = []"
    with line have "last (strip raw) = CHR '' ''" by simp
    with l space_isspace show False by simp
  qed
  from pre line have "hd pre = hd (strip raw)" by simp
  with h pre have "\<exists>x\<in>set pre. \<not> isspace x" by (metis hd_in_set)
  then show sp: "strip pre \<noteq> []" by (simp add: strip_def strip_class_Nil_iff)
  from post line have "last post = last (strip raw)" by simp
  with l post have "\<exists>x\<in>set post. \<not> isspace x" by (metis last_in_set)
  then show sq: "strip post \<noteq> []" by (simp add: strip_def strip_class_Nil_iff)
  have f: "\<not> sublist '' - '' (pre @ butlast '' - '')" using first by (simp add: str_in_sublist)
  have find: "str_find '' - '' (strip raw) = Some (length pre)"
    unfolding line by (rule str_find_first [OF _ f]) simp
  have "take (length pre) (strip raw) = pre" and "drop (length pre + length '' - '') (strip raw) = post"
    by (simp_all add: line)
  then have part: "str_partition (strip raw) '' - '' = (pre, '' - '', post)"
    by (simp only: str_partition_def find option.case)
  have inn: "str_in '' - '' (strip raw)" using find by (simp add: str_in_def)
  have nonempty: "strip raw \<noteq> []" using ne by (simp add: strip_def)
  show "read_url_line raw = Some (strip pre, strip post)"
    by (simp add: read_url_line_def part Let_def inn nonempty sp sq)
qed

lemma read_url_line_None:
  "strip raw = [] \<or> \<not> str_in '' - '' (strip raw) \<Longrightarrow> read_url_line raw = None"
  by (auto simp: read_url_line_def Let_def)

lemma read_url_line_Some:
  assumes "read_url_line raw = Some (f, u)"
  shows "\<exists>pre post. strip raw = pre @ '' - '' @ post \<and> \<not> str_in '' - '' (pre @ '' -'') \<and>
           f = strip pre \<and> u = strip post"
proof -
  have "str_in '' - '' (strip raw)"
    using assms read_url_line_None [of raw] by (cases "str_in '' - '' (strip raw)") auto
  then have "sublist '' - '' (strip raw)" by (simp add: str_in_sublist)
  then obtain pre post where line: "strip raw = pre @ '' - '' @ post"
    and "\<not> sublist '' - '' (pre @ butlast '' - '')"
    using first_occurrence_exists [of "'' - ''" "strip raw"] by blast
  then have first: "\<not> str_in '' - '' (pre @ '' -'')" by (simp add: str_in_sublist)
  from read_url_line_split(1) [OF line first] assms have "f = strip pre \<and> u = strip post" by simp
  with line first show ?thesis by blast
qed

lemma read_url_file_append: "read_url_file (xs @ ys) = read_url_file xs @ read_url_file ys"
  by (induction xs) (auto split: option.splits)

section \<open>Facts about extensions\<close>

lemma char_of_eq_iff: "n < 256 \<Longrightarrow> char_of (n::nat) = c \<longleftrightarrow> n = of_char c"
  by (metis char_of_char of_char_of mod_less)

lemma lower_char_eq:
  "lower_char c = d \<longleftrightarrow>
     (if (65 \<le> ord c \<and> ord c \<le> 90) \<or> (192 \<le> ord c \<and> ord c \<le> 214) \<or> (216 \<le> ord c \<and> ord c \<le> 222)
      then ord c + 32 = ord d else c = d)"
  by (auto simp: lower_char_def Let_def ord_def char_of_eq_iff)

lemma ord_eq_iff: "ord c = ord d \<longleftrightarrow> c = d"
  by (simp add: ord_def)

lemma lower_char_dot: "lower_char c = CHR ''.'' \<longleftrightarrow> c = CHR ''.''"
proof -
  have o: "ord (CHR ''.'') = 46" by (simp add: ord_def)
  show ?thesis
  proof (cases "c = CHR ''.''")
    case True
    then show ?thesis by (simp add: lower_char_eq o)
  next
    case False
    then show ?thesis by (auto simp: lower_char_eq o)
  qed
qed

lemma lower_char_p: "lower_char c = CHR ''p'' \<longleftrightarrow> c = CHR ''p'' \<or> c = CHR ''P''"
proof -
  have o: "ord (CHR ''p'') = 112" "ord (CHR ''P'') = 80" by (simp_all add: ord_def)
  have P: "ord c = 80 \<longleftrightarrow> c = CHR ''P''" using ord_eq_iff [of c "CHR ''P''"] by (simp add: o)
  have p: "ord c = 112 \<longleftrightarrow> c = CHR ''p''" using ord_eq_iff [of c "CHR ''p''"] by (simp add: o)
  show ?thesis
    unfolding lower_char_eq o using P p by (auto split: if_splits)
qed

lemma lower_char_t: "lower_char c = CHR ''t'' \<longleftrightarrow> c = CHR ''t'' \<or> c = CHR ''T''"
proof -
  have o: "ord (CHR ''t'') = 116" "ord (CHR ''T'') = 84" by (simp_all add: ord_def)
  have P: "ord c = 84 \<longleftrightarrow> c = CHR ''T''" using ord_eq_iff [of c "CHR ''T''"] by (simp add: o)
  have p: "ord c = 116 \<longleftrightarrow> c = CHR ''t''" using ord_eq_iff [of c "CHR ''t''"] by (simp add: o)
  show ?thesis
    unfolding lower_char_eq o using P p by (auto split: if_splits)
qed

lemma lower_pt: "lower e = ''.pt'' \<longleftrightarrow> e \<in> {''.pt'', ''.pT'', ''.Pt'', ''.PT''}"
proof -
  have "lower e = ''.pt'' \<longleftrightarrow>
    (\<exists>a b c. e = [a, b, c] \<and> lower_char a = CHR ''.'' \<and> lower_char b = CHR ''p'' \<and> lower_char c = CHR ''t'')"
    by (auto simp: lower_def map_eq_Cons_conv)
  also have "\<dots> \<longleftrightarrow> (\<exists>b c. e = [CHR ''.'', b, c] \<and> (b = CHR ''p'' \<or> b = CHR ''P'') \<and> (c = CHR ''t'' \<or> c = CHR ''T''))"
    unfolding lower_char_dot lower_char_p lower_char_t by blast
  also have "\<dots> \<longleftrightarrow> e \<in> {''.pt'', ''.pT'', ''.Pt'', ''.PT''}" by auto
  finally show ?thesis .
qed

lemma rfind_append_absent:
  "c \<notin> set rest \<Longrightarrow> rfind c (stem @ [c] @ rest) = int (length stem)"
proof -
  assume a: "c \<notin> set rest"
  have "takeWhile (\<lambda>x. x \<noteq> c) (rev rest @ c # rev stem) = rev rest @ takeWhile (\<lambda>x. x \<noteq> c) (c # rev stem)"
    by (rule takeWhile_append2) (use a in auto)
  then have "length (takeWhile (\<lambda>x. x \<noteq> c) (rev (stem @ [c] @ rest))) = length rest" by simp
  then show ?thesis by (simp add: rfind_def)
qed

lemma rfind_absent: "c \<notin> set s \<Longrightarrow> rfind c s = - 1"
proof -
  assume "c \<notin> set s"
  then have "\<forall>x\<in>set (rev s). x \<noteq> c" by auto
  then have t: "takeWhile (\<lambda>x. x \<noteq> c) (rev s) = rev s"
    by (rule takeWhile_eq_all_conv [THEN iffD2])
  show ?thesis unfolding rfind_def t by simp
qed

lemma splitext_plain:
  assumes "CHR ''/'' \<notin> set stem" and "\<exists>c\<in>set stem. c \<noteq> CHR ''.''"
    and "CHR ''.'' \<notin> set rest" and "CHR ''/'' \<notin> set rest"
  shows "splitext (stem @ ''.'' @ rest) = (stem, ''.'' @ rest)"
proof -
  have sep: "rfind (CHR ''/'') (stem @ ''.'' @ rest) = - 1"
    using assms(1,4) by (intro rfind_absent) simp
  have dot: "rfind (CHR ''.'') (stem @ ''.'' @ rest) = int (length stem)"
    using assms(3) by (rule rfind_append_absent)
  have ex: "list_ex (\<lambda>c. c \<noteq> CHR ''.'') stem" using assms(2) by (simp add: list_ex_iff)
  show ?thesis
    unfolding splitext_def sep dot Let_def using ex by simp
qed

section \<open>The claims on the sanitizer and the classifier\<close>

text \<open>
  C4: \<open>sanitize_filename\<close> is idempotent: whenever it returns a name for an input, it
  returns that same name when applied to the name it returned.
\<close>

theorem sanitize_filename_idempotent:
  assumes "sanitize_filename x = Inr y"
  shows "sanitize_filename y = Inr y"
proof -
  have b: "basename y = y" using assms by (intro basename_id sanitized_no_slash)
  have d: "\<not> str_in ''..'' y" using assms by (rule sanitized_no_dotdot)
  have r: "re_sub_forbidden y = y" using assms by (intro re_sub_fixed) (rule sanitized_allowed)
  from assms have "\<not> str_in ''..'' (basename x) \<and>
      y = strip_chars ''. '' (re_sub_forbidden (basename x)) \<and> y \<noteq> []"
    by (rule sanitize_filename_Inr [THEN iffD1])
  then have y: "y = strip_chars ''. '' (re_sub_forbidden (basename x))" and ne: "y \<noteq> []"
    by blast+
  have "strip_chars ''. '' y = strip_chars ''. '' (strip_chars ''. '' (re_sub_forbidden (basename x)))"
    using y by (rule arg_cong)
  also have "\<dots> = strip_chars ''. '' (re_sub_forbidden (basename x))"
    unfolding strip_chars_def by (rule strip_class_idem)
  also have "\<dots> = y" using y by (rule sym)
  finally have s: "strip_chars ''. '' y = y" .
  have "y = strip_chars ''. '' (re_sub_forbidden (basename y))"
    unfolding b r s by (rule refl)
  with d b ne have "\<not> str_in ''..'' (basename y) \<and>
      y = strip_chars ''. '' (re_sub_forbidden (basename y)) \<and> y \<noteq> []"
    by metis
  then show ?thesis by (rule sanitize_filename_Inr [THEN iffD2])
qed

theorem sanitize_filename_idempotent_witness:
  "sanitize_filename ''dir/ my<model>.pt. '' = Inr ''my_model_.pt'' \<and>
   sanitize_filename ''my_model_.pt'' = Inr ''my_model_.pt''"
proof -
  have h: "sanitize_filename ''dir/ my<model>.pt. '' = Inr ''my_model_.pt''"
    by code_simp
  from h sanitize_filename_idempotent [OF h] show ?thesis by (rule conjI)
qed

text \<open>
  C2, as the claim states it, fails: a raw filename whose parent-directory token lies in
  the directory part is repaired, not rejected, because the directory part is dropped
  before the test.
\<close>

theorem sanitize_dotdot_counterexample:
  "str_in ''..'' ''../foo.pt'' \<and> sanitize_filename ''../foo.pt'' = Inr ''foo.pt''"
  by code_simp

text \<open>
  C2, amended: for every raw filename whose last path component (the text after its last
  slash) contains the parent-directory token, \<open>sanitize_filename\<close> fails with the
  path-traversal \<open>ValueError\<close> and returns no name. A directory part is dropped before
  the test, with any token in it: the name with a directory part gives what its last
  component alone gives. No name that \<open>sanitize_filename\<close> returns contains the token.
\<close>

theorem sanitize_rejects_dotdot_in_basename:
  "(str_in ''..'' (basename raw) \<longrightarrow>
      sanitize_filename raw = Inl (Path_traversal (basename raw))) \<and>
   ((d = [] \<or> last d = CHR ''/'') \<and> CHR ''/'' \<notin> set b \<and> str_in ''..'' b \<longrightarrow>
      sanitize_filename (d @ b) = Inl (Path_traversal b)) \<and>
   (sanitize_filename raw = Inr y \<longrightarrow> \<not> str_in ''..'' y) \<and>
   ((d = [] \<or> last d = CHR ''/'') \<and> CHR ''/'' \<notin> set b \<longrightarrow>
      sanitize_filename (d @ b) = sanitize_filename b)"
proof (intro conjI impI)
  assume "str_in ''..'' (basename raw)"
  then show "sanitize_filename raw = Inl (Path_traversal (basename raw))"
    by (simp add: sanitize_filename_def)
next
  assume h: "(d = [] \<or> last d = CHR ''/'') \<and> CHR ''/'' \<notin> set b \<and> str_in ''..'' b"
  then have "basename (d @ b) = b" by (intro basename_append) blast+
  with h show "sanitize_filename (d @ b) = Inl (Path_traversal b)"
    by (simp add: sanitize_filename_def)
next
  assume "sanitize_filename raw = Inr y"
  then show "\<not> str_in ''..'' y" by (rule sanitized_no_dotdot)
next
  assume h: "(d = [] \<or> last d = CHR ''/'') \<and> CHR ''/'' \<notin> set b"
  then have 1: "basename (d @ b) = b" by (intro basename_append) blast+
  from h have 2: "basename b = b" by (intro basename_id) blast
  show "sanitize_filename (d @ b) = sanitize_filename b"
    unfolding sanitize_filename_def 1 2 by (rule refl)
qed

theorem sanitize_rejects_dotdot_in_basename_witness:
  "str_in ''..'' (basename ''a/b..c'') \<and>
   sanitize_filename ''a/b..c'' = Inl (Path_traversal ''b..c'') \<and>
   sanitize_filename ''../foo.pt'' = Inr ''foo.pt'' \<and> \<not> str_in ''..'' ''foo.pt'' \<and>
   sanitize_filename ''../../etc/foo.pt'' = sanitize_filename ''foo.pt''"
proof -
  have b: "basename ''a/b..c'' = ''b..c''" by code_simp
  have h1: "str_in ''..'' (basename ''a/b..c'')" by code_simp
  have h2: "(''a/'' = [] \<or> last ''a/'' = CHR ''/'') \<and> CHR ''/'' \<notin> set ''b..c'' \<and> str_in ''..'' ''b..c''"
    by code_simp
  have h3: "sanitize_filename ''../foo.pt'' = Inr ''foo.pt''" by code_simp
  have h4: "(''../../etc/'' = [] \<or> last ''../../etc/'' = CHR ''/'') \<and> CHR ''/'' \<notin> set ''foo.pt''"
    by code_simp
  note t = sanitize_rejects_dotdot_in_basename [of "''a/b..c''" "''a/''" "''b..c''" "''foo.pt''"]
  note u = sanitize_rejects_dotdot_in_basename [of "''../foo.pt''" "''a/''" "''b..c''" "''foo.pt''"]
  note v = sanitize_rejects_dotdot_in_basename [of "''../foo.pt''" "''../../etc/''" "''foo.pt''" "''foo.pt''"]
  from t h2 have "sanitize_filename (''a/'' @ ''b..c'') = Inl (Path_traversal ''b..c'')" by blast
  then have c2: "sanitize_filename ''a/b..c'' = Inl (Path_traversal ''b..c'')" by simp
  from u h3 have c3: "\<not> str_in ''..'' ''foo.pt''" by blast
  from v h4 have "sanitize_filename (''../../etc/'' @ ''foo.pt'') = sanitize_filename ''foo.pt''"
    by blast
  then have c4: "sanitize_filename ''../../etc/foo.pt'' = sanitize_filename ''foo.pt''" by simp
  from h1 c2 h3 c3 c4 show ?thesis by (intro conjI)
qed

text \<open>
  C3: \<open>destination_folder\<close> is a function of the extension (as \<open>os.path.splitext\<close> gives
  it) and the size alone: an extension that is \<open>.pt\<close> in any letter case gives
  \<open>embeddings\<close> whatever the size; any other extension gives \<open>models\<close> from
  \<open>2 * 1024 ^ 3\<close> bytes on and \<open>loras\<close> below. The extension of a name without slash is
  its part from the last dot on, when something other than dots comes before that dot.
\<close>

theorem destination_folder_by_extension_and_size:
  "(lower (snd (splitext f)) = ''.pt'' \<longrightarrow> destination_folder f n = ''embeddings'') \<and>
   (lower (snd (splitext f)) \<noteq> ''.pt'' \<and> n \<ge> 2 * 1024 ^ 3 \<longrightarrow>
      destination_folder f n = ''models'') \<and>
   (lower (snd (splitext f)) \<noteq> ''.pt'' \<and> n < 2 * 1024 ^ 3 \<longrightarrow>
      destination_folder f n = ''loras'') \<and>
   (snd (splitext f) = snd (splitext g) \<longrightarrow> destination_folder f n = destination_folder g n) \<and>
   (lower (snd (splitext f)) = ''.pt'' \<longleftrightarrow>
      snd (splitext f) \<in> {''.pt'', ''.pT'', ''.Pt'', ''.PT''}) \<and>
   (CHR ''/'' \<notin> set stem \<and> (\<exists>c\<in>set stem. c \<noteq> CHR ''.'') \<and> CHR ''.'' \<notin> set rest \<and>
    CHR ''/'' \<notin> set rest \<longrightarrow> snd (splitext (stem @ ''.'' @ rest)) = ''.'' @ rest)"
proof -
  have f6: "CHR ''/'' \<notin> set stem \<and> (\<exists>c\<in>set stem. c \<noteq> CHR ''.'') \<and> CHR ''.'' \<notin> set rest \<and>
        CHR ''/'' \<notin> set rest \<longrightarrow> snd (splitext (stem @ ''.'' @ rest)) = ''.'' @ rest"
    using splitext_plain [of stem rest] by simp
  have f5: "lower (snd (splitext f)) = ''.pt'' \<longleftrightarrow>
      snd (splitext f) \<in> {''.pt'', ''.pT'', ''.Pt'', ''.PT''}"
    by (rule lower_pt)
  have f1: "lower (snd (splitext f)) = ''.pt'' \<longrightarrow> destination_folder f n = ''embeddings''"
    by (simp add: destination_folder_def)
  have f2: "lower (snd (splitext f)) \<noteq> ''.pt'' \<and> n \<ge> 2 * 1024 ^ 3 \<longrightarrow>
      destination_folder f n = ''models''"
    by (simp add: destination_folder_def MIN_CHECKPOINT_SIZE_def)
  have f3: "lower (snd (splitext f)) \<noteq> ''.pt'' \<and> n < 2 * 1024 ^ 3 \<longrightarrow>
      destination_folder f n = ''loras''"
    by (simp add: destination_folder_def MIN_CHECKPOINT_SIZE_def)
  have f4: "snd (splitext f) = snd (splitext g) \<longrightarrow>
      destination_folder f n = destination_folder g n"
    by (simp add: destination_folder_def)
  show ?thesis by (rule conjI f1 f2 f3 f4 f5 f6)+
qed

theorem destination_folder_by_extension_and_size_witness:
  "destination_folder ''emb.PT'' 5000000000 = ''embeddings'' \<and>
   destination_folder ''big.safetensors'' 2147483648 = ''models'' \<and>
   destination_folder ''small.safetensors'' 2147483647 = ''loras'' \<and>
   destination_folder ''dir.pt/other.safetensors'' 7 = ''loras'' \<and>
   snd (splitext (''v1.5-emb'' @ ''.'' @ ''PT'')) = ''.'' @ ''PT''"
proof -
  have e1: "lower (snd (splitext ''emb.PT'')) = ''.pt''" by code_simp
  have e2: "lower (snd (splitext ''big.safetensors'')) \<noteq> ''.pt'' \<and> (2147483648::int) \<ge> 2 * 1024 ^ 3"
    by code_simp
  have e3: "lower (snd (splitext ''small.safetensors'')) \<noteq> ''.pt'' \<and> (2147483647::int) < 2 * 1024 ^ 3"
    by code_simp
  have e4: "snd (splitext ''dir.pt/other.safetensors'') = snd (splitext ''small.safetensors'')"
    by code_simp
  have e5: "lower (snd (splitext ''small.safetensors'')) \<noteq> ''.pt'' \<and> (7::int) < 2 * 1024 ^ 3"
    by code_simp
  have e6: "CHR ''/'' \<notin> set ''v1.5-emb'' \<and> (\<exists>c\<in>set ''v1.5-emb''. c \<noteq> CHR ''.'') \<and>
            CHR ''.'' \<notin> set ''PT'' \<and> CHR ''/'' \<notin> set ''PT''"
    by simp
  note t1 = destination_folder_by_extension_and_size
    [of "''emb.PT''" 5000000000 "''emb.PT''" "''v1.5-emb''" "''PT''"]
  note t2 = destination_folder_by_extension_and_size
    [of "''big.safetensors''" 2147483648 "''big.safetensors''" "''v1.5-emb''" "''PT''"]
  note t3 = destination_folder_by_extension_and_size
    [of "''small.safetensors''" 2147483647 "''small.safetensors''" "''v1.5-emb''" "''PT''"]
  note t4 = destination_folder_by_extension_and_size
    [of "''dir.pt/other.safetensors''" 7 "''small.safetensors''" "''v1.5-emb''" "''PT''"]
  note t5 = destination_folder_by_extension_and_size
    [of "''small.safetensors''" 7 "''small.safetensors''" "''v1.5-emb''" "''PT''"]
  have c1: "destination_folder ''emb.PT'' 5000000000 = ''embeddings''"
    using t1 [THEN conjunct1] e1 by (rule mp)
  have c2: "destination_folder ''big.safetensors'' 2147483648 = ''models''"
    using t2 [THEN conjunct2, THEN conjunct1] e2 by (rule mp)
  have c3: "destination_folder ''small.safetensors'' 2147483647 = ''loras''"
    using t3 [THEN conjunct2, THEN conjunct2, THEN conjunct1] e3 by (rule mp)
  have "destination_folder ''dir.pt/other.safetensors'' 7 = destination_folder ''small.safetensors'' 7"
    using t4 [THEN conjunct2, THEN conjunct2, THEN conjunct2, THEN conjunct1] e4 by (rule mp)
  moreover have "destination_folder ''small.safetensors'' 7 = ''loras''"
    using t5 [THEN conjunct2, THEN conjunct2, THEN conjunct1] e5 by (rule mp)
  ultimately have c4: "destination_folder ''dir.pt/other.safetensors'' 7 = ''loras''"
    by (rule trans)
  have c5: "snd (splitext (''v1.5-emb'' @ ''.'' @ ''PT'')) = ''.'' @ ''PT''"
    using t1 [THEN conjunct2, THEN conjunct2, THEN conjunct2, THEN conjunct2, THEN conjunct2] e6
    by (rule mp)
  from c1 c2 c3 c4 c5 show ?thesis by (intro conjI)
qed

section \<open>The claims on the session, the worker and the retry loop\<close>

text \<open>
  C10: within one thread \<open>get_session\<close> builds the session at most once. Every later
  call returns that same session and leaves the state alone, whatever token it is given,
  so the \<open>Authorization\<close> header is the one fixed by the token of the first call.
\<close>

theorem get_session_once:
  "(get_session w t = (s, w1) \<longrightarrow> get_session w1 t' = (s, w1)) \<and>
   (thread_session w = None \<longrightarrow>
      authorization (fst (get_session w t)) = (if t = [] then None else Some (''Bearer '' @ t)) \<and>
      sessions_created (snd (get_session w t)) = sessions_created w + 1 \<and>
      get_sessions w (t # ts) =
        (replicate (Suc (length ts)) (fst (get_session w t)), snd (get_session w t))) \<and>
   (thread_session w = Some s \<longrightarrow> get_sessions w ts = (replicate (length ts) s, w))"
proof (intro conjI impI)
  assume "get_session w t = (s, w1)"
  then show "get_session w1 t' = (s, w1)" by (rule get_session_again)
next
  assume "thread_session w = None"
  then show "authorization (fst (get_session w t)) = (if t = [] then None else Some (''Bearer '' @ t))"
    by (simp add: get_session_def Let_def)
next
  assume "thread_session w = None"
  then show "sessions_created (snd (get_session w t)) = sessions_created w + 1"
    by (simp add: get_session_def Let_def)
next
  show "get_sessions w (t # ts) =
        (replicate (Suc (length ts)) (fst (get_session w t)), snd (get_session w t))"
    using get_sessions_existing [OF get_session_slot, of w t ts]
    by (simp add: case_prod_unfold Let_def)
next
  assume "thread_session w = Some s"
  then show "get_sessions w ts = (replicate (length ts) s, w)" by (rule get_sessions_existing)
qed

theorem get_session_once_witness:
  "thread_session (empty_world scenario_net) = None \<and>
   authorization (fst (get_session (empty_world scenario_net) ''abc'')) = Some ''Bearer abc'' \<and>
   sessions_created (snd (get_session (empty_world scenario_net) ''abc'')) = 1 \<and>
   get_sessions (empty_world scenario_net) [''abc'', ''xyz'', []] =
     (replicate 3 (fst (get_session (empty_world scenario_net) ''abc'')),
      snd (get_session (empty_world scenario_net) ''abc'')) \<and>
   get_session (snd (get_session (empty_world scenario_net) ''abc'')) ''xyz'' =
     get_session (empty_world scenario_net) ''abc''"
proof -
  let ?w = "empty_world scenario_net"
  have fresh: "thread_session ?w = None" by (simp add: empty_world_def)
  have first: "get_session ?w ''abc'' = (fst (get_session ?w ''abc''), snd (get_session ?w ''abc''))"
    by simp
  note t = get_session_once [of ?w "''abc''" "fst (get_session ?w ''abc'')"
      "snd (get_session ?w ''abc'')" "''xyz''" "[''xyz'', []]"]
  from t first have again: "get_session (snd (get_session ?w ''abc'')) ''xyz'' = get_session ?w ''abc''"
    by simp
  from t fresh have a: "authorization (fst (get_session ?w ''abc'')) = Some ''Bearer abc''"
    and c: "sessions_created (snd (get_session ?w ''abc'')) = sessions_created ?w + 1"
    and g: "get_sessions ?w [''abc'', ''xyz'', []] =
      (replicate (Suc (length [''xyz'', []])) (fst (get_session ?w ''abc'')), snd (get_session ?w ''abc''))"
    by simp_all
  have c': "sessions_created (snd (get_session ?w ''abc'')) = 1"
    using c by (simp add: empty_world_def)
  have g': "get_sessions ?w [''abc'', ''xyz'', []] =
      (replicate 3 (fst (get_session ?w ''abc'')), snd (get_session ?w ''abc''))"
    using g by (simp add: numeral_3_eq_3)
  from fresh a c' g' again show ?thesis by (intro conjI)
qed

text \<open>
  C7: when the filename sanitizes to a name with an accepted extension and an entry of
  that exact name is present in one of the folders \<open>embeddings\<close>, \<open>loras\<close>, \<open>models\<close>,
  the worker returns \<open>True\<close>; it only prints the \<open>EXISTS\<close> line, so no request is sent
  and no session is made.
\<close>

theorem existing_file_short_circuits:
  assumes "sanitize_filename filename0 = Inr name"
    and "lower (snd (splitext name)) \<in> set VALID_EXTENSIONS"
    and "folder \<in> {''embeddings'', ''loras'', ''models''}"
    and "fs w (folder @ ''/'' @ name) \<noteq> None"
  shows "download_one w filename0 url token = (Returned True, w\<lparr>stdout := stdout w @ [EXISTS name]\<rparr>) \<and>
         requests (snd (download_one w filename0 url token)) = requests w"
proof -
  have "path_join folder name = folder @ ''/'' @ name"
    using assms(1,3) by (intro path_join_plain sanitized_no_slash)
  with assms(3,4) have "file_already_exists w name"
    unfolding file_already_exists_iff by metis
  with assms(1,2) show ?thesis
    by (simp add: download_one_def print_def)
qed

theorem existing_file_short_circuits_witness:
  "download_one stocked_world ''dir/x.PT'' ''http://h/a'' ''tok'' =
     (Returned True, stocked_world\<lparr>stdout := stdout stocked_world @ [EXISTS ''x.PT'']\<rparr>) \<and>
   requests (snd (download_one stocked_world ''dir/x.PT'' ''http://h/a'' ''tok'')) = []"
proof -
  have h1: "sanitize_filename ''dir/x.PT'' = Inr ''x.PT''" by code_simp
  have h2: "lower (snd (splitext ''x.PT'')) \<in> set VALID_EXTENSIONS" by code_simp
  have h3: "''models'' \<in> {''embeddings'', ''loras'', ''models''}" by simp
  have h4: "fs stocked_world (''models'' @ ''/'' @ ''x.PT'') \<noteq> None"
    by (simp add: stocked_world_def)
  have r: "requests stocked_world = []" by (simp add: stocked_world_def empty_world_def)
  from existing_file_short_circuits [OF h1 h2 h3 h4, of "''http://h/a''" "''tok''"] r
  show ?thesis by simp
qed

text \<open>
  C6: when the response has arrived, the temporary file has been created and then a
  request exception or an \<open>OSError\<close> interrupts the copying of the body, the worker
  returns \<open>False\<close>, none of the three folders holds an entry of the sanitized name, and
  the temporary file is gone unless its removal itself is refused; a refused removal does
  not change the result.
\<close>

theorem midstream_fault_cleans_up:
  assumes san: "sanitize_filename filename0 = Inr name"
    and ext: "lower (snd (splitext name)) \<in> set VALID_EXTENSIONS"
    and fresh: "\<not> file_already_exists w name"
    and sess: "get_session w token = (s, w1)"
    and get: "session_get w1 s url = (Get_returns r, w2)"
    and status: "\<not> (400 \<le> status_code r \<and> status_code r < 600)"
    and len: "content_length r \<noteq> Malformed"
    and opened: "open_wb w2 (name @ ''.part'') = Some w3"
    and fault: "write_chunks w3 (name @ ''.part'') (body r) = (Some e, w4)"
  shows "fst (download_one w filename0 url token) = Returned False \<and>
         (\<forall>folder \<in> {''embeddings'', ''loras'', ''models''}.
            fs (snd (download_one w filename0 url token)) (folder @ ''/'' @ name) = None) \<and>
         (\<not> io_fault w (Op_remove (name @ ''.part'')) \<longrightarrow>
            fs (snd (download_one w filename0 url token)) (name @ ''.part'') = None)"
proof -
  let ?tmp = "name @ ''.part''"
  from status have st: "(400 \<le> status_code r \<and> status_code r < 600) = False" by blast
  have tb: "try_body w1 s url name ?tmp = (Inl e, w4)"
    unfolding try_body_def by (simp only: get st len opened fault prod.case get_outcome.case
        if_False option.case simp_thms)
  have e: "e = OSError \<or> (\<exists>x. e = Request_exception x)"
    using fault by (rule write_chunks_exn)
  from handler_returns_False [OF tb e san ext fresh sess refl]
  obtain line where d: "download_one w filename0 url token =
      (Returned False, finally_cleanup (print line w4) ?tmp)" by blast
  have noslash: "CHR ''/'' \<notin> set name" using san by (rule sanitized_no_slash)
  have w3: "fs w3 ?tmp = Some (File 0)" "\<And>q. q \<noteq> ?tmp \<Longrightarrow> fs w3 q = fs w2 q" "io_fault w3 = io_fault w2"
    using open_wb_inv [OF opened] by blast+
  from write_chunks_inv [OF fault w3(1)] obtain k4 where
    w4: "io_fault w4 = io_fault w3" "\<And>q. q \<noteq> ?tmp \<Longrightarrow> fs w4 q = fs w3 q" "fs w4 ?tmp = Some (File k4)"
    by blast
  have w12: "fs w2 = fs w" "io_fault w2 = io_fault w"
    using get_session_inv [OF sess] session_get_inv [OF get] by simp_all
  have dest: "fs (finally_cleanup (print line w4) ?tmp) (folder @ ''/'' @ name) = None"
    if f: "folder \<in> {''embeddings'', ''loras'', ''models''}" for folder
  proof -
    have ne: "folder @ ''/'' @ name \<noteq> ?tmp"
    proof
      assume eq: "folder @ ''/'' @ name = ?tmp"
      have "CHR ''/'' \<in> set (folder @ ''/'' @ name)" by simp
      then have "CHR ''/'' \<in> set ?tmp" unfolding eq .
      then show False using noslash by simp
    qed
    have "path_join folder name = folder @ ''/'' @ name"
      using noslash f by (rule path_join_plain)
    with fresh f have "fs w (folder @ ''/'' @ name) = None"
      unfolding file_already_exists_iff by force
    with ne show ?thesis
      by (simp add: finally_cleanup_inv(2) print_inv w4(2) w3(2) w12)
  qed
  have tmp: "fs (finally_cleanup (print line w4) ?tmp) ?tmp = None"
    if "\<not> io_fault w (Op_remove ?tmp)"
  proof (rule finally_cleanup_inv(3))
    show "fs (print line w4) ?tmp = Some (File k4)" by (simp add: print_inv w4(3))
    show "\<not> io_fault (print line w4) (Op_remove ?tmp)"
      using that by (simp add: print_inv w4(1) w3(3) w12)
  qed
  show ?thesis
  proof (intro conjI ballI impI)
    show "fst (download_one w filename0 url token) = Returned False"
      unfolding d fst_conv by (rule refl)
  next
    fix folder :: string
    assume "folder \<in> {''embeddings'', ''loras'', ''models''}"
    then show "fs (snd (download_one w filename0 url token)) (folder @ ''/'' @ name) = None"
      unfolding d snd_conv by (rule dest)
  next
    assume "\<not> io_fault w (Op_remove ?tmp)"
    then show "fs (snd (download_one w filename0 url token)) ?tmp = None"
      unfolding d snd_conv by (rule tmp)
  qed
qed

theorem midstream_fault_cleans_up_witness:
  "fst (download_one (empty_world broken_net) ''x.pt'' ''http://h/x'' ''tok'') = Returned False \<and>
   fs (snd (download_one (empty_world broken_net) ''x.pt'' ''http://h/x'' ''tok'')) ''embeddings/x.pt'' = None \<and>
   fs (snd (download_one (empty_world broken_net) ''x.pt'' ''http://h/x'' ''tok'')) ''x.pt.part'' = None \<and>
   fst (write_chunks
          (the (open_wb (snd (session_get (snd (get_session (empty_world broken_net) ''tok''))
                                (fst (get_session (empty_world broken_net) ''tok'')) ''http://h/x''))
                  ''x.pt.part''))
          ''x.pt.part'' (body broken_response)) = Some (Request_exception Other_request_exception)"
proof -
  let ?w = "empty_world broken_net"
  let ?s = "fst (get_session ?w ''tok'')"
  let ?w1 = "snd (get_session ?w ''tok'')"
  let ?w2 = "snd (session_get ?w1 ?s ''http://h/x'')"
  let ?w3 = "the (open_wb ?w2 ''x.pt.part'')"
  let ?w4 = "snd (write_chunks ?w3 ''x.pt.part'' (body broken_response))"
  have san: "sanitize_filename ''x.pt'' = Inr ''x.pt''" by code_simp
  have ext: "lower (snd (splitext ''x.pt'')) \<in> set VALID_EXTENSIONS" by code_simp
  have fresh: "\<not> file_already_exists ?w ''x.pt''"
    by (simp add: file_already_exists_def os_path_exists_def empty_world_def)
  have sess: "get_session ?w ''tok'' = (?s, ?w1)" by simp
  have "fst (session_get ?w1 ?s ''http://h/x'') = Get_returns broken_response"
    by (simp add: session_get_def get_session_def empty_world_def broken_net_def Let_def)
  then have get: "session_get ?w1 ?s ''http://h/x'' = (Get_returns broken_response, ?w2)"
    by (metis prod.collapse)
  have status: "\<not> (400 \<le> status_code broken_response \<and> status_code broken_response < 600)"
    by (simp add: broken_response_def)
  have len: "content_length broken_response \<noteq> Malformed" by (simp add: broken_response_def)
  have "open_wb ?w2 ''x.pt.part'' \<noteq> None"
    by (simp add: open_wb_def session_get_def get_session_def empty_world_def Let_def)
  then have opened: "open_wb ?w2 (''x.pt'' @ ''.part'') = Some ?w3" by simp
  have "fst (write_chunks ?w3 ''x.pt.part'' (body broken_response))
          = Some (Request_exception Other_request_exception)"
    by (simp add: broken_response_def open_wb_def session_get_def get_session_def
        empty_world_def file_write_def Let_def)
  then have fault: "write_chunks ?w3 (''x.pt'' @ ''.part'') (body broken_response)
          = (Some (Request_exception Other_request_exception), ?w4)"
    by (metis append_Cons append_Nil prod.collapse)
  have nofault: "\<not> io_fault ?w (Op_remove (''x.pt'' @ ''.part''))" by (simp add: empty_world_def)
  note t = midstream_fault_cleans_up [OF san ext fresh sess get status len opened fault]
  from t have 1: "fst (download_one ?w ''x.pt'' ''http://h/x'' ''tok'') = Returned False" by blast
  from t have "fs (snd (download_one ?w ''x.pt'' ''http://h/x'' ''tok'')) (''embeddings'' @ ''/'' @ ''x.pt'') = None"
    by blast
  then have 2: "fs (snd (download_one ?w ''x.pt'' ''http://h/x'' ''tok'')) ''embeddings/x.pt'' = None"
    by simp
  from t nofault have "fs (snd (download_one ?w ''x.pt'' ''http://h/x'' ''tok'')) (''x.pt'' @ ''.part'') = None"
    by blast
  then have 3: "fs (snd (download_one ?w ''x.pt'' ''http://h/x'' ''tok'')) ''x.pt.part'' = None"
    by simp
  from 1 2 3 \<open>fst (write_chunks ?w3 ''x.pt.part'' (body broken_response))
          = Some (Request_exception Other_request_exception)\<close>
  show ?thesis by (intro conjI)
qed

section \<open>The claims on the input list and the program\<close>

text \<open>
  C9: when the input list yields no entry, the process ends by \<open>sys.exit(1)\<close> and
  the world is untouched: no request has been sent, no file or folder made, no session
  built.
\<close>

theorem no_entries_exit_before_downloads:
  assumes "url_file args = Some lines" and "read_url_file lines = []"
  shows "fst (main args w) = (Sys_exit 1, []) \<and> exit_code (fst (fst (main args w))) = 1 \<and>
         snd (main args w) = w"
  using assms by (simp add: main_def split: option.splits)

theorem no_entries_exit_before_downloads_witness:
  "read_url_file [[], ''# my models'', ''model.pt http://h/a''] = [] \<and>
   fst (main no_entries_args (empty_world scenario_net)) = (Sys_exit 1, []) \<and>
   exit_code (fst (fst (main no_entries_args (empty_world scenario_net)))) = 1 \<and>
   snd (main no_entries_args (empty_world scenario_net)) = empty_world scenario_net"
proof -
  have h1: "url_file no_entries_args = Some [[], ''# my models'', ''model.pt http://h/a'']"
    by (simp add: no_entries_args_def)
  have h2: "read_url_file [[], ''# my models'', ''model.pt http://h/a''] = []" by code_simp
  from h2 no_entries_exit_before_downloads [OF h1 h2, of "empty_world scenario_net"]
  show ?thesis by (intro conjI) blast+
qed

text \<open>
  C8, as the claim states it, fails: the filename that \<open>read_url_file\<close> returns is not
  the text before the first separator when that text ends in white space, because both
  parts are stripped after the split.
\<close>

theorem read_url_file_counterexample:
  "read_url_file [''model.pt  - http://h/x''] = [(''model.pt'', ''http://h/x'')] \<and>
   str_partition ''model.pt  - http://h/x'' '' - '' = (''model.pt '', '' - '', ''http://h/x'') \<and>
   ''model.pt'' \<noteq> ''model.pt ''"
  by code_simp

text \<open>
  C8, amended: \<open>read_url_file\<close> strips each line, splits it at the first occurrence of
  the separator \<open>" - "\<close> in the stripped line, and strips both parts: the filename is
  the stripped text before that occurrence and the URL the stripped text after it, so
  later occurrences stay in the URL; every entry it returns arises this way. A line that
  is blank or lacks the separator once stripped gives no entry, and the lines before and
  after any line are read all the same.
\<close>

theorem read_url_file_splits_at_first_separator:
  "(strip raw = pre @ '' - '' @ post \<and> \<not> str_in '' - '' (pre @ '' -'') \<longrightarrow>
      read_url_line raw = Some (strip pre, strip post) \<and> strip pre \<noteq> [] \<and> strip post \<noteq> []) \<and>
   (read_url_line raw = Some (f, u) \<longrightarrow>
      (\<exists>pre post. strip raw = pre @ '' - '' @ post \<and> \<not> str_in '' - '' (pre @ '' -'') \<and>
         f = strip pre \<and> u = strip post)) \<and>
   (strip raw = [] \<or> \<not> str_in '' - '' (strip raw) \<longrightarrow> read_url_line raw = None) \<and>
   read_url_file (before @ raw # after) =
     read_url_file before @ (case read_url_line raw of None \<Rightarrow> [] | Some e \<Rightarrow> [e]) @
     read_url_file after"
proof (intro conjI impI)
  assume h: "strip raw = pre @ '' - '' @ post \<and> \<not> str_in '' - '' (pre @ '' -'')"
  then have l: "strip raw = pre @ '' - '' @ post" and f: "\<not> str_in '' - '' (pre @ '' -'')"
    by blast+
  show "read_url_line raw = Some (strip pre, strip post)" using l f by (rule read_url_line_split(1))
  show "strip pre \<noteq> []" using l f by (rule read_url_line_split(2))
  show "strip post \<noteq> []" using l f by (rule read_url_line_split(3))
next
  assume "read_url_line raw = Some (f, u)"
  then show "\<exists>pre post. strip raw = pre @ '' - '' @ post \<and> \<not> str_in '' - '' (pre @ '' -'') \<and>
         f = strip pre \<and> u = strip post"
    by (rule read_url_line_Some)
next
  assume "strip raw = [] \<or> \<not> str_in '' - '' (strip raw)"
  then show "read_url_line raw = None" by (rule read_url_line_None)
next
  have "read_url_file (raw # after) =
        (case read_url_line raw of None \<Rightarrow> [] | Some e \<Rightarrow> [e]) @ read_url_file after"
    by (simp split: option.splits)
  then show "read_url_file (before @ raw # after) =
     read_url_file before @ (case read_url_line raw of None \<Rightarrow> [] | Some e \<Rightarrow> [e]) @
     read_url_file after"
    by (simp only: read_url_file_append)
qed

theorem read_url_file_splits_at_first_separator_witness:
  "strip (''  a.pt  -  http://h/x - y'' @ [CHR 0x0A]) = ''a.pt '' @ '' - '' @ '' http://h/x - y'' \<and>
   read_url_line (''  a.pt  -  http://h/x - y'' @ [CHR 0x0A]) = Some (''a.pt'', ''http://h/x - y'') \<and>
   read_url_line ''# my models'' = None \<and>
   read_url_file [''# my models'', ''  a.pt  -  http://h/x - y'' @ [CHR 0x0A], []] =
     [(''a.pt'', ''http://h/x - y'')]"
proof -
  let ?raw = "''  a.pt  -  http://h/x - y'' @ [CHR 0x0A]"
  have h1: "strip ?raw = ''a.pt '' @ '' - '' @ '' http://h/x - y'' \<and>
            \<not> str_in '' - '' (''a.pt '' @ '' -'')"
    by code_simp
  have h2: "strip ''# my models'' = [] \<or> \<not> str_in '' - '' (strip ''# my models'')"
    by code_simp
  have s1: "strip ''a.pt '' = ''a.pt''" and s2: "strip '' http://h/x - y'' = ''http://h/x - y''"
    by code_simp+
  note t = read_url_file_splits_at_first_separator
    [of ?raw "''a.pt ''" "'' http://h/x - y''" "''a.pt''" "''http://h/x - y''" "[''# my models'']" "[[]]"]
  note t2 = read_url_file_splits_at_first_separator
    [of "''# my models''" "''a.pt ''" "'' http://h/x - y''" "''a.pt''" "''http://h/x - y''" "[]" "[]"]
  from t h1 have "read_url_line ?raw = Some (strip ''a.pt '', strip '' http://h/x - y'')" by blast
  then have c1: "read_url_line ?raw = Some (''a.pt'', ''http://h/x - y'')" by (simp only: s1 s2)
  from t2 h2 have c2: "read_url_line ''# my models'' = None" by blast
  from t have "read_url_file ([''# my models''] @ ?raw # [[]]) =
     read_url_file [''# my models''] @ (case read_url_line ?raw of None \<Rightarrow> [] | Some e \<Rightarrow> [e]) @
     read_url_file [[]]" by blast
  moreover have "read_url_file [''# my models''] = []" using c2 by simp
  moreover have "read_url_file [[]] = []" by code_simp
  ultimately have c3: "read_url_file [''# my models'', ?raw, []] = [(''a.pt'', ''http://h/x - y'')]"
    using c1 by simp
  from h1 c1 c2 c3 show ?thesis by blast
qed

section \<open>The claims on skipped tasks and the retry loop\<close>

lemma executor_map_results:
  "executor_map token w pending = (Some results, w1) \<Longrightarrow> (p, ok) \<in> set results \<Longrightarrow>
   \<exists>w'. fst (download_one w' (fst p) (snd p) token) = Returned ok"
proof (induction pending arbitrary: w results)
  case Nil
  then show ?case by simp
next
  case (Cons q qs)
  obtain r wq where d: "download_one w (fst q) (snd q) token = (r, wq)"
    by (cases "download_one w (fst q) (snd q) token")
  with Cons.prems(1) obtain ok' where r: "r = Returned ok'" by (cases r) auto
  with d Cons.prems(1) obtain rs where m: "executor_map token wq qs = (Some rs, w1)"
    and res: "results = (q, ok') # rs"
    by (auto split: prod.splits option.splits)
  show ?case
  proof (cases "(p, ok) = (q, ok')")
    case True
    with d r have "fst (download_one w (fst p) (snd p) token) = Returned ok" by simp
    then show ?thesis by blast
  next
    case False
    with Cons.prems(2) res have "(p, ok) \<in> set rs" by auto
    with m show ?thesis by (rule Cons.IH)
  qed
qed

text \<open>
  C1, as the claim states it, fails: for \<open>notes.json\<close> the worker returns \<open>False\<close>, the
  value of a failure; the task is run again in each of the three attempts (three \<open>SKIP\<close>
  lines), is listed in the final summary of failures, and the process exits with code 1.
\<close>

theorem unsupported_extension_counterexample:
  "sanitize_filename ''notes.json'' = Inr ''notes.json'' \<and>
   lower (snd (splitext ''notes.json'')) = ''.json'' \<and>
   fst (download_one (empty_world scenario_net) ''notes.json'' ''http://h/a'' ''tok'') = Returned False \<and>
   fst (main json_args (empty_world scenario_net)) = (Sys_exit 1, [''notes.json'']) \<and>
   stdout (snd (main json_args (empty_world scenario_net))) =
     [SKIP_unsupported ''notes.json'' ''.json'', SKIP_unsupported ''notes.json'' ''.json'',
      SKIP_unsupported ''notes.json'' ''.json'']"
  by code_simp

text \<open>
  C1, amended: for every task whose sanitized filename has an extension other than
  \<open>.pt\<close> and \<open>.safetensors\<close> (in any letter case), the worker sends no request and
  changes no file, prints a \<open>SKIP\<close> line and returns \<open>False\<close>, the value it returns for a
  failure. The task therefore stays in the pending list after every attempt, the run
  never ends with all files done, the exit code is 1, and, unless the run dies of an
  uncaught exception, the filename is in the final list of failures.
\<close>

theorem unsupported_extension_counts_as_failure:
  assumes san: "sanitize_filename filename0 = Inr name"
    and ext: "lower (snd (splitext name)) \<notin> set VALID_EXTENSIONS"
  shows "download_one w filename0 url token =
           (Returned False,
            w\<lparr>stdout := stdout w @ [SKIP_unsupported name (lower (snd (splitext name)))]\<rparr>) \<and>
         ((filename0, url) \<in> set pending \<and> run_attempt mt token w pending = (Some results, w1) \<longrightarrow>
            (filename0, url) \<in> set (failed_pairs results)) \<and>
         ((filename0, url) \<in> set pending \<longrightarrow>
            fst (main_loop mt rt token attempt w pending) \<noteq> All_succeeded \<and>
            (\<forall>left. fst (main_loop mt rt token attempt w pending) = Exhausted_retries left \<longrightarrow>
               (filename0, url) \<in> set left)) \<and>
         (url_file args = Some lines \<and> (filename0, url) \<in> set (read_url_file lines) \<longrightarrow>
            exit_code (fst (fst (main args w))) = 1 \<and>
            (get_token args = None \<or> fst (fst (main args w)) = Traceback \<or>
             filename0 \<in> set (snd (fst (main args w)))))"
proof -
  have always: "fst (download_one w' (fst (filename0, url)) (snd (filename0, url)) token') = Returned False"
    for w' token'
    using unsupported_returns_False [OF san ext] by simp
  have c1: "download_one w filename0 url token =
           (Returned False,
            w\<lparr>stdout := stdout w @ [SKIP_unsupported name (lower (snd (splitext name)))]\<rparr>)"
    using san ext by (rule unsupported_returns_False)
  have c2: "(filename0, url) \<in> set (failed_pairs results)"
    if "(filename0, url) \<in> set pending" and "run_attempt mt token w pending = (Some results, w1)"
  proof -
    from that(2) have ex: "executor_map token (new_executor w) pending = (Some results, w1)"
      by (simp add: run_attempt_Some)
    have "((filename0, url), False) \<in> set results"
      by (rule executor_map_False [where token = token]) (rule always, rule ex, rule that(1))
    then show ?thesis by (rule failed_pairs_mem)
  qed
  have c3: "fst (main_loop mt' rt' token' attempt' w' pending') \<noteq> All_succeeded \<and>
            (\<forall>left. fst (main_loop mt' rt' token' attempt' w' pending') = Exhausted_retries left \<longrightarrow>
               (filename0, url) \<in> set left)"
    if "(filename0, url) \<in> set pending'" for mt' rt' token' attempt' w' pending'
    by (rule main_loop_keeps_False) (rule always, rule that)
  have c4: "exit_code (fst (fst (main args w))) = 1 \<and>
            (get_token args = None \<or> fst (fst (main args w)) = Traceback \<or>
             filename0 \<in> set (snd (fst (main args w))))"
    if lines: "url_file args = Some lines" and mem: "(filename0, url) \<in> set (read_url_file lines)"
  proof (cases "get_token args")
    case None
    then show ?thesis by (simp add: main_def)
  next
    case (Some tok)
    from mem have ne: "read_url_file lines \<noteq> []" by auto
    let ?r = "main_loop (max_threads args) (retries args) tok 1 w (read_url_file lines)"
    have m: "main args w =
      (case ?r of
         (All_succeeded, w1) \<Rightarrow> ((Ends_normally, []), w1)
       | (Exhausted_retries pending, w1) \<Rightarrow> ((Sys_exit 1, map fst pending), w1)
       | (Uncaught_exception, w1) \<Rightarrow> ((Traceback, []), w1))"
      using Some lines ne by (simp add: main_def)
    from c3 [OF mem] have k: "fst ?r \<noteq> All_succeeded"
      and l: "\<And>left. fst ?r = Exhausted_retries left \<Longrightarrow> (filename0, url) \<in> set left"
      by blast+
    obtain e w2 where r: "?r = (e, w2)" by (cases ?r)
    show ?thesis
    proof (cases e)
      case All_succeeded
      with k r show ?thesis by simp
    next
      case (Exhausted_retries left)
      with l r have "(filename0, url) \<in> set left" by simp
      then have "filename0 \<in> set (map fst left)" by force
      with Exhausted_retries r m show ?thesis by simp
    next
      case Uncaught_exception
      with r m show ?thesis by simp
    qed
  qed
  from c1 c2 c3 c4 show ?thesis by blast
qed

theorem unsupported_extension_counts_as_failure_witness:
  "sanitize_filename ''dir/notes.JSON'' = Inr ''notes.JSON'' \<and>
   download_one stocked_world ''dir/notes.JSON'' ''http://h/a'' ''tok'' =
     (Returned False,
      stocked_world\<lparr>stdout := stdout stocked_world @ [SKIP_unsupported ''notes.JSON'' ''.json'']\<rparr>) \<and>
   fst (main_loop 5 3 ''tok'' 1 stocked_world [(''dir/notes.JSON'', ''http://h/a'')]) \<noteq> All_succeeded \<and>
   exit_code (fst (fst (main json_args stocked_world))) = 1"
proof -
  have san: "sanitize_filename ''dir/notes.JSON'' = Inr ''notes.JSON''" by code_simp
  have e: "lower (snd (splitext ''notes.JSON'')) = ''.json''" by code_simp
  have ext: "lower (snd (splitext ''notes.JSON'')) \<notin> set VALID_EXTENSIONS" by code_simp
  have san2: "sanitize_filename ''notes.json'' = Inr ''notes.json''" by code_simp
  have ext2: "lower (snd (splitext ''notes.json'')) \<notin> set VALID_EXTENSIONS" by code_simp
  have mem: "(''dir/notes.JSON'', ''http://h/a'') \<in> set [(''dir/notes.JSON'', ''http://h/a'')]"
    by simp
  have lines: "url_file json_args = Some [''notes.json - http://h/a'']"
    by (simp add: json_args_def)
  have "read_url_file [''notes.json - http://h/a''] = [(''notes.json'', ''http://h/a'')]"
    by code_simp
  then have mem2: "(''notes.json'', ''http://h/a'') \<in> set (read_url_file [''notes.json - http://h/a''])"
    by simp
  note t = unsupported_extension_counts_as_failure [OF san ext,
      of stocked_world "''http://h/a''" "''tok''" "[(''dir/notes.JSON'', ''http://h/a'')]"
         5 "[]" stocked_world 3 1 json_args "[]"]
  note t2 = unsupported_extension_counts_as_failure [OF san2 ext2,
      of stocked_world "''http://h/a''" "''tok''" "[]"
         5 "[]" stocked_world 3 1 json_args "[''notes.json - http://h/a'']"]
  from t have c1: "download_one stocked_world ''dir/notes.JSON'' ''http://h/a'' ''tok'' =
     (Returned False,
      stocked_world\<lparr>stdout := stdout stocked_world @ [SKIP_unsupported ''notes.JSON'' ''.json'']\<rparr>)"
    unfolding e by blast
  from t mem have c2:
    "fst (main_loop 5 3 ''tok'' 1 stocked_world [(''dir/notes.JSON'', ''http://h/a'')]) \<noteq> All_succeeded"
    by blast
  from t2 lines mem2 have c3: "exit_code (fst (fst (main json_args stocked_world))) = 1" by blast
  from san c1 c2 c3 show ?thesis by (intro conjI)
qed

text \<open>
  C5: the retry loop is the state machine of attempts. Past the last attempt it ends in
  \<open>Exhausted_retries\<close> with the tasks still pending. An attempt that completes gives one
  result for each pending task, in order, each the value its worker returned; the next
  pending list is exactly the tasks whose worker returned \<open>False\<close>, a subsequence of the
  pending list, so a task that returned \<open>True\<close> is never run again; with no such task the
  run ends in \<open>All_succeeded\<close>, otherwise the loop goes on with the next attempt. The
  final list of failures is a subsequence of the first pending list. In the scenario
  with three attempts, \<open>a\<close> succeeds in the first attempt, \<open>b\<close> fails in the first two
  and succeeds in the third, \<open>c\<close> fails in all three: the run ends in
  \<open>Exhausted_retries\<close> with \<open>c\<close> alone, the exit code is 1 and \<open>c.pt\<close> is the only
  filename in the summary; of the seven status lines, whatever their order, one reports
  \<open>a\<close> done, two a timeout of \<open>b\<close>, one \<open>b\<close> done and three the status 404 for \<open>c\<close>.
\<close>

theorem retry_loop_state_machine:
  "(rt < attempt \<longrightarrow>
      main_loop mt rt token attempt w pending = (Exhausted_retries pending, w)) \<and>
   (attempt \<le> rt \<and> run_attempt mt token w pending = (Some results, w1) \<longrightarrow>
      map fst results = pending \<and>
      (\<forall>(p, ok) \<in> set results. \<exists>w'. fst (download_one w' (fst p) (snd p) token) = Returned ok) \<and>
      failed_pairs results = map fst (filter (\<lambda>(p, ok). \<not> ok) results) \<and>
      subseq (failed_pairs results) pending \<and>
      (failed_pairs results = [] \<longrightarrow>
         main_loop mt rt token attempt w pending = (All_succeeded, w1)) \<and>
      (failed_pairs results \<noteq> [] \<longrightarrow>
         main_loop mt rt token attempt w pending =
         main_loop mt rt token (attempt + 1) w1 (failed_pairs results))) \<and>
   (fst (main_loop mt rt token attempt w pending) = Exhausted_retries left \<longrightarrow>
      subseq left pending) \<and>
   read_url_file (the (url_file scenario_args)) = scenario_tasks \<and>
   fst (main_loop 5 3 ''tok'' 1 (empty_world scenario_net) scenario_tasks) =
     Exhausted_retries [(''c.pt'', ''http://h/c'')] \<and>
   fst (main scenario_args (empty_world scenario_net)) = (Sys_exit 1, [''c.pt'']) \<and>
   exit_code (fst (fst (main scenario_args (empty_world scenario_net)))) = 1 \<and>
   fst (run_attempt 5 ''tok'' (empty_world scenario_net) scenario_tasks) =
     Some [((''a.safetensors'', ''http://h/a''), True), ((''b.safetensors'', ''http://h/b''), False),
           ((''c.pt'', ''http://h/c''), False)] \<and>
   fst (run_attempt 5 ''tok'' scenario_world1
          [(''b.safetensors'', ''http://h/b''), (''c.pt'', ''http://h/c'')]) =
     Some [((''b.safetensors'', ''http://h/b''), False), ((''c.pt'', ''http://h/c''), False)] \<and>
   fst (run_attempt 5 ''tok'' scenario_world2
          [(''b.safetensors'', ''http://h/b''), (''c.pt'', ''http://h/c'')]) =
     Some [((''b.safetensors'', ''http://h/b''), True), ((''c.pt'', ''http://h/c''), False)] \<and>
   length (stdout (snd (main scenario_args (empty_world scenario_net)))) = 7 \<and>
   count_list (stdout (snd (main scenario_args (empty_world scenario_net))))
     (OK ''a.safetensors'' ''loras'') = 1 \<and>
   count_list (stdout (snd (main scenario_args (empty_world scenario_net))))
     (FAIL_timeout ''b.safetensors'') = 2 \<and>
   count_list (stdout (snd (main scenario_args (empty_world scenario_net))))
     (OK ''b.safetensors'' ''loras'') = 1 \<and>
   count_list (stdout (snd (main scenario_args (empty_world scenario_net))))
     (FAIL_http ''c.pt'' 404) = 3"
proof -
  have c1: "main_loop mt rt token attempt w pending = (Exhausted_retries pending, w)"
    if "rt < attempt"
    using that by (rule main_loop_exhausted)
  have c2: "map fst results = pending \<and>
      (\<forall>(p, ok) \<in> set results. \<exists>w'. fst (download_one w' (fst p) (snd p) token) = Returned ok) \<and>
      failed_pairs results = map fst (filter (\<lambda>(p, ok). \<not> ok) results) \<and>
      subseq (failed_pairs results) pending \<and>
      (failed_pairs results = [] \<longrightarrow>
         main_loop mt rt token attempt w pending = (All_succeeded, w1)) \<and>
      (failed_pairs results \<noteq> [] \<longrightarrow>
         main_loop mt rt token attempt w pending =
         main_loop mt rt token (attempt + 1) w1 (failed_pairs results))"
    if le: "attempt \<le> rt" and ra: "run_attempt mt token w pending = (Some results, w1)"
  proof -
    from ra have ex: "executor_map token (new_executor w) pending = (Some results, w1)"
      by (simp add: run_attempt_Some)
    then have m: "map fst results = pending" by (rule executor_map_fst)
    have r: "\<forall>(p, ok) \<in> set results. \<exists>w'. fst (download_one w' (fst p) (snd p) token) = Returned ok"
      using executor_map_results [OF ex] by blast
    have s: "subseq (failed_pairs results) pending"
      using failed_pairs_subseq [of results] by (simp only: m)
    have step: "main_loop mt rt token attempt w pending =
      (if failed_pairs results = [] then (All_succeeded, w1)
       else main_loop mt rt token (attempt + 1) w1 (failed_pairs results))"
      using le ra by (rule main_loop_step)
    have a: "failed_pairs results = [] \<longrightarrow>
         main_loop mt rt token attempt w pending = (All_succeeded, w1)"
      by (simp add: step)
    have b: "failed_pairs results \<noteq> [] \<longrightarrow>
         main_loop mt rt token attempt w pending =
         main_loop mt rt token (attempt + 1) w1 (failed_pairs results)"
      by (simp add: step)
    from m r s a b show ?thesis by (simp only: failed_pairs_def simp_thms)
  qed
  have c3: "subseq left pending"
    if "fst (main_loop mt rt token attempt w pending) = Exhausted_retries left"
    using that by (rule main_loop_subseq)
  have s0: "read_url_file (the (url_file scenario_args)) = scenario_tasks" by code_simp
  have s1: "fst (main_loop 5 3 ''tok'' 1 (empty_world scenario_net) scenario_tasks) =
     Exhausted_retries [(''c.pt'', ''http://h/c'')]"
    by code_simp
  have s2: "fst (main scenario_args (empty_world scenario_net)) = (Sys_exit 1, [''c.pt''])"
    by code_simp
  have s3: "exit_code (fst (fst (main scenario_args (empty_world scenario_net)))) = 1"
    by (simp add: s2)
  have a1: "fst (run_attempt 5 ''tok'' (empty_world scenario_net) scenario_tasks) =
     Some [((''a.safetensors'', ''http://h/a''), True), ((''b.safetensors'', ''http://h/b''), False),
           ((''c.pt'', ''http://h/c''), False)]"
    by code_simp
  have a2: "fst (run_attempt 5 ''tok'' scenario_world1
          [(''b.safetensors'', ''http://h/b''), (''c.pt'', ''http://h/c'')]) =
     Some [((''b.safetensors'', ''http://h/b''), False), ((''c.pt'', ''http://h/c''), False)]"
    by code_simp
  have a3: "fst (run_attempt 5 ''tok'' scenario_world2
          [(''b.safetensors'', ''http://h/b''), (''c.pt'', ''http://h/c'')]) =
     Some [((''b.safetensors'', ''http://h/b''), True), ((''c.pt'', ''http://h/c''), False)]"
    by code_simp
  have l0: "length (stdout (snd (main scenario_args (empty_world scenario_net)))) = 7"
    by code_simp
  have l1: "count_list (stdout (snd (main scenario_args (empty_world scenario_net))))
     (OK ''a.safetensors'' ''loras'') = 1"
    by code_simp
  have l2: "count_list (stdout (snd (main scenario_args (empty_world scenario_net))))
     (FAIL_timeout ''b.safetensors'') = 2"
    by code_simp
  have l3: "count_list (stdout (snd (main scenario_args (empty_world scenario_net))))
     (OK ''b.safetensors'' ''loras'') = 1"
    by code_simp
  have l4: "count_list (stdout (snd (main scenario_args (empty_world scenario_net))))
     (FAIL_http ''c.pt'' 404) = 3"
    by code_simp
  have g1: "rt < attempt \<longrightarrow>
      main_loop mt rt token attempt w pending = (Exhausted_retries pending, w)"
    using c1 by blast
  have g2: "attempt \<le> rt \<and> run_attempt mt token w pending = (Some results, w1) \<longrightarrow>
      map fst results = pending \<and>
      (\<forall>(p, ok) \<in> set results. \<exists>w'. fst (download_one w' (fst p) (snd p) token) = Returned ok) \<and>
      failed_pairs results = map fst (filter (\<lambda>(p, ok). \<not> ok) results) \<and>
      subseq (failed_pairs results) pending \<and>
      (failed_pairs results = [] \<longrightarrow>
         main_loop mt rt token attempt w pending = (All_succeeded, w1)) \<and>
      (failed_pairs results \<noteq> [] \<longrightarrow>
         main_loop mt rt token attempt w pending =
         main_loop mt rt token (attempt + 1) w1 (failed_pairs results))"
    using c2 by blast
  have g3: "fst (main_loop mt rt token attempt w pending) = Exhausted_retries left \<longrightarrow>
      subseq left pending"
    using c3 by blast
  show ?thesis by (rule conjI g1 g2 g3 s0 s1 s2 s3 a1 a2 a3 l0 l1 l2 l3 l4)+
qed

theorem retry_loop_state_machine_witness:
  "fst (run_attempt 5 ''tok'' (empty_world scenario_net) scenario_tasks) =
     Some [((''a.safetensors'', ''http://h/a''), True), ((''b.safetensors'', ''http://h/b''), False),
           ((''c.pt'', ''http://h/c''), False)] \<and>
   failed_pairs [((''a.safetensors'', ''http://h/a''), True), ((''b.safetensors'', ''http://h/b''), False),
           ((''c.pt'', ''http://h/c''), False)] =
     [(''b.safetensors'', ''http://h/b''), (''c.pt'', ''http://h/c'')] \<and>
   main_loop 5 3 ''tok'' 1 (empty_world scenario_net) scenario_tasks =
     main_loop 5 3 ''tok'' 2 (snd (run_attempt 5 ''tok'' (empty_world scenario_net) scenario_tasks))
       [(''b.safetensors'', ''http://h/b''), (''c.pt'', ''http://h/c'')] \<and>
   subseq [(''b.safetensors'', ''http://h/b''), (''c.pt'', ''http://h/c'')] scenario_tasks \<and>
   main_loop 5 3 ''tok'' 4 (empty_world scenario_net) [(''c.pt'', ''http://h/c'')] =
     (Exhausted_retries [(''c.pt'', ''http://h/c'')], empty_world scenario_net)"
proof -
  let ?w = "empty_world scenario_net"
  let ?R = "[((''a.safetensors'', ''http://h/a''), True), ((''b.safetensors'', ''http://h/b''), False),
           ((''c.pt'', ''http://h/c''), False)]"
  let ?w1 = "snd (run_attempt 5 ''tok'' ?w scenario_tasks)"
  have f: "fst (run_attempt 5 ''tok'' ?w scenario_tasks) = Some ?R" by code_simp
  then have ra: "run_attempt 5 ''tok'' ?w scenario_tasks = (Some ?R, ?w1)"
    by (metis prod.collapse)
  have fp: "failed_pairs ?R = [(''b.safetensors'', ''http://h/b''), (''c.pt'', ''http://h/c'')]"
    by (simp add: failed_pairs_def)
  have le: "(1::int) \<le> 3" and gt: "(3::int) < 4" by simp_all
  note t = retry_loop_state_machine [of 3 1 5 "''tok''" ?w scenario_tasks ?R ?w1 "[]"]
  note u = retry_loop_state_machine [of 3 4 5 "''tok''" ?w "[(''c.pt'', ''http://h/c'')]" ?R ?w1 "[]"]
  from t le ra have "failed_pairs ?R \<noteq> [] \<longrightarrow>
         main_loop 5 3 ''tok'' 1 ?w scenario_tasks =
         main_loop 5 3 ''tok'' (1 + 1) ?w1 (failed_pairs ?R)"
    and "subseq (failed_pairs ?R) scenario_tasks"
    by blast+
  then have a: "main_loop 5 3 ''tok'' 1 ?w scenario_tasks =
         main_loop 5 3 ''tok'' 2 ?w1 [(''b.safetensors'', ''http://h/b''), (''c.pt'', ''http://h/c'')]"
    and b: "subseq [(''b.safetensors'', ''http://h/b''), (''c.pt'', ''http://h/c'')] scenario_tasks"
    by (simp_all add: fp)
  from u gt have c: "main_loop 5 3 ''tok'' 4 ?w [(''c.pt'', ''http://h/c'')] =
     (Exhausted_retries [(''c.pt'', ''http://h/c'')], ?w)"
    by blast
  from f fp a b c show ?thesis by (intro conjI)
qed

end
